theory Spec2Isabelle
  imports Main "HOL-Library.Word" "HOL-Library.Sublist"
begin

section \<open>Machine types, errors and C strings\<close>

text \<open>
  The file is compiled for Linux only (\<^verbatim>\<open>#ifdef __linux__\<close>): \<^verbatim>\<open>size_t\<close> is an unsigned
  64-bit integer and \<^verbatim>\<open>uint8_t\<close> a byte. Ordinal IDs are kept as \<^verbatim>\<open>size_t\<close> words, because
  they are copied byte by byte into the serialized form. Row offsets are loop counters bounded by
  the size of a vector and are never serialized; they are natural numbers.
\<close>

type_synonym size_t = "64 word"
type_synonym byte = "8 word"

text \<open>
  Every \<^verbatim>\<open>throw\<close> of the source and of its collaborators is a value of this type.
  \<open>UndefinedBehaviour\<close> stands for the places where the C++ leaves the language's
  defined behaviour: a \<^verbatim>\<open>memcpy\<close> that writes past the end of a vector, and a bit position
  beyond the size of a bitset.
\<close>

datatype error =
    IndexHasBeenBuilt
  | Unsupported
  | MARISA_STATE_ERROR
  | MARISA_FORMAT_ERROR
  | OutOfRange
  | AssertionFailed
  | UndefinedBehaviour

text \<open>
  \<^verbatim>\<open>std::string::c_str()\<close> hands the engine a NUL-terminated C string: the engine sees the
  characters before the first NUL character only.
\<close>

definition c_str :: "string \<Rightarrow> string" where
  "c_str s = takeWhile (\<lambda>c. c \<noteq> CHR 0x00) s"

text \<open>\<^verbatim>\<open>std::vector::resize(n)\<close>: truncates, or pads with value-initialised elements.\<close>

definition resize :: "nat \<Rightarrow> size_t list \<Rightarrow> size_t list" where
  "resize n xs = take n xs @ replicate (n - length xs) 0"

section \<open>The Trie Engine\<close>

text \<open>
  Modelled from the spec: the Trie Engine is the marisa library, an external collaborator whose
  code is not part of the source. Its contract (spec, section 6): \<^verbatim>\<open>build\<close> assigns dense
  zero-based ordinal IDs to the distinct keys of a keyset; \<^verbatim>\<open>lookup\<close> yields the ordinal ID
  of a key or "not found"; \<^verbatim>\<open>predictive_search\<close> enumerates the IDs of all keys with a given
  prefix; \<^verbatim>\<open>write\<close> and \<^verbatim>\<open>read\<close> are exactly reversible.

  A built trie is the list of its keys, the key with ordinal ID \<open>i\<close> at position \<open>i\<close>.
  The order in which the engine numbers the keys is not fixed by the contract: it is the
  parameter \<open>ord\<close> of \<open>trie_build\<close>. The byte layout of a serialized trie is owned by the
  engine: \<open>trie_write\<close> and \<open>trie_read\<close> take the engine's encoder and decoder as the
  parameters \<open>tw\<close> and \<open>tr\<close>.

  The handle \<^verbatim>\<open>marisa::Trie\<close> held by the index is \<open>None\<close> until a build or a read has
  succeeded. Two facts are the library's and are not stated by the spec: every operation on a
  handle that holds no trie throws \<^verbatim>\<open>MARISA_STATE_ERROR\<close>, and the key of a newly
  constructed \<^verbatim>\<open>marisa::Agent\<close> has ID 0, which a lookup that finds nothing leaves in place
  (it only returns \<^verbatim>\<open>false\<close>). A failed build or read leaves the handle as it was.
\<close>

datatype marisa_trie = Trie (keys: "string list")

record agent =
  query :: string
  key_id :: size_t
  reported :: nat

definition Agent :: agent where
  "Agent = \<lparr>query = [], key_id = 0, reported = 0\<rparr>"

definition set_query :: "agent \<Rightarrow> string \<Rightarrow> agent" where
  "set_query a q = a\<lparr>query := q, reported := 0\<rparr>"

fun key_index :: "string list \<Rightarrow> string \<Rightarrow> nat option" where
  "key_index [] q = None"
| "key_index (k # ks) q = (if k = q then Some 0 else map_option Suc (key_index ks q))"

definition trie_build :: "(string list \<Rightarrow> string list) \<Rightarrow> string list \<Rightarrow> marisa_trie option" where
  "trie_build ord keyset = Some (Trie (ord keyset))"

definition trie_size :: "marisa_trie option \<Rightarrow> error + nat" where
  "trie_size h = (case h of None \<Rightarrow> Inl MARISA_STATE_ERROR | Some t \<Rightarrow> Inr (length (keys t)))"

definition trie_lookup :: "marisa_trie option \<Rightarrow> agent \<Rightarrow> error + bool \<times> agent" where
  "trie_lookup h a =
     (case h of
        None \<Rightarrow> Inl MARISA_STATE_ERROR
      | Some t \<Rightarrow>
          (case key_index (keys t) (query a) of
             None \<Rightarrow> Inr (False, a)
           | Some i \<Rightarrow> Inr (True, a\<lparr>key_id := of_nat i\<rparr>)))"

definition matching_ids :: "marisa_trie \<Rightarrow> string \<Rightarrow> size_t list" where
  "matching_ids t q = map of_nat (filter (\<lambda>i. prefix q (keys t ! i)) [0..<length (keys t)])"

definition trie_predictive_search :: "marisa_trie option \<Rightarrow> agent \<Rightarrow> error + bool \<times> agent" where
  "trie_predictive_search h a =
     (case h of
        None \<Rightarrow> Inl MARISA_STATE_ERROR
      | Some t \<Rightarrow>
          (if reported a < length (matching_ids t (query a))
           then Inr (True, a\<lparr>key_id := matching_ids t (query a) ! reported a,
                             reported := Suc (reported a)\<rparr>)
           else Inr (False, a)))"

definition trie_write :: "(marisa_trie \<Rightarrow> byte list) \<Rightarrow> marisa_trie option \<Rightarrow> error + byte list" where
  "trie_write tw h = (case h of None \<Rightarrow> Inl MARISA_STATE_ERROR | Some t \<Rightarrow> Inr (tw t))"

definition trie_read :: "(byte list \<Rightarrow> marisa_trie option) \<Rightarrow> byte list \<Rightarrow> error + marisa_trie option" where
  "trie_read tr bs = (case tr bs of None \<Rightarrow> Inl MARISA_FORMAT_ERROR | Some t \<Rightarrow> Inr (Some t))"

section \<open>The blob set and the bitmap\<close>

text \<open>
  Modelled from the spec: the container of named byte buffers (\<^verbatim>\<open>BinarySet\<close>, declared outside
  the source) with \<^verbatim>\<open>append(name, bytes)\<close> and \<^verbatim>\<open>get_by_name(name) -> bytes or "missing"\<close>;
  a missing name is the error \<open>OutOfRange\<close>. The hook pair \<^verbatim>\<open>assemble\<close>/\<^verbatim>\<open>disassemble\<close> is,
  as the spec has it, a pass-through. The two segment names are constants of a header that is not
  part of the source; nothing but their being different is used.
\<close>

type_synonym BinarySet = "string \<rightharpoonup> byte list"

definition MARISA_TRIE_INDEX :: string where
  "MARISA_TRIE_INDEX = ''marisa_trie_index''"

definition MARISA_STR_IDS :: string where
  "MARISA_STR_IDS = ''marisa_trie_str_ids''"

definition BinarySet_empty :: BinarySet where
  "BinarySet_empty = Map.empty"

definition Append :: "BinarySet \<Rightarrow> string \<Rightarrow> byte list \<Rightarrow> BinarySet" where
  "Append s name bs = s(name \<mapsto> bs)"

definition GetByName :: "BinarySet \<Rightarrow> string \<Rightarrow> error + byte list" where
  "GetByName s name = (case s name of None \<Rightarrow> Inl OutOfRange | Some bs \<Rightarrow> Inr bs)"

definition Assemble :: "BinarySet \<Rightarrow> BinarySet" where
  "Assemble s = s"

definition Disassemble :: "BinarySet \<Rightarrow> BinarySet" where
  "Disassemble s = s"

text \<open>
  Modelled from the spec: the bitmap collaborator (\<^verbatim>\<open>TargetBitmap\<close>) is a fixed-size bit vector
  with set-all, \<^verbatim>\<open>set(i)\<close> and \<^verbatim>\<open>reset(i)\<close>. A position beyond the size is outside the
  contract of the bit vector.
\<close>

type_synonym TargetBitmap = "bool list"

definition make_bitmap :: "nat \<Rightarrow> TargetBitmap" where
  "make_bitmap n = replicate n False"

definition bitset_set_all :: "TargetBitmap \<Rightarrow> TargetBitmap" where
  "bitset_set_all bs = replicate (length bs) True"

definition bitset_set :: "TargetBitmap \<Rightarrow> nat \<Rightarrow> error + TargetBitmap" where
  "bitset_set bs pos = (if pos < length bs then Inr (bs[pos := True]) else Inl UndefinedBehaviour)"

definition bitset_reset :: "TargetBitmap \<Rightarrow> nat \<Rightarrow> error + TargetBitmap" where
  "bitset_reset bs pos = (if pos < length bs then Inr (bs[pos := False]) else Inl UndefinedBehaviour)"

section \<open>Raw bytes of a \<^verbatim>\<open>size_t\<close> array\<close>

text \<open>
  \<^verbatim>\<open>memcpy\<close> between a \<^verbatim>\<open>std::vector<size_t>\<close> and a byte buffer: eight bytes per element, in
  the host's byte order (little-endian on the Linux targets of the source).
\<close>

definition size_t_bytes :: "size_t \<Rightarrow> byte list" where
  "size_t_bytes w = map (\<lambda>i. ucast (drop_bit (8 * i) w)) [0..<8]"

definition size_t_of_bytes :: "byte list \<Rightarrow> size_t" where
  "size_t_of_bytes bs = word_of_int (horner_sum uint (2 ^ 8) bs)"

definition bytes_of_size_t_array :: "size_t list \<Rightarrow> byte list" where
  "bytes_of_size_t_array xs = concat (map size_t_bytes xs)"

fun size_t_array_of_bytes :: "nat \<Rightarrow> byte list \<Rightarrow> size_t list" where
  "size_t_array_of_bytes 0 bs = []"
| "size_t_array_of_bytes (Suc n) bs = size_t_of_bytes (take 8 bs) # size_t_array_of_bytes n (drop 8 bs)"

text \<open>
  \<^verbatim>\<open>memcpy(dst.data(), src, len)\<close> into a vector: the first \<open>len\<close> bytes of the vector's storage
  are overwritten. Copying more bytes than the vector holds writes past its end.
\<close>

definition memcpy_size_t :: "size_t list \<Rightarrow> byte list \<Rightarrow> error + size_t list" where
  "memcpy_size_t dst src =
     (let old = bytes_of_size_t_array dst in
      if length src \<le> length old
      then Inr (size_t_array_of_bytes (length dst) (src @ drop (length src) old))
      else Inl UndefinedBehaviour)"

section \<open>The index\<close>

text \<open>
  The members of \<^verbatim>\<open>StringIndexMarisa\<close> that the source file uses. The class declaration is in
  a header outside the source; the types are those the code needs: \<^verbatim>\<open>str_ids_\<close> is a
  \<^verbatim>\<open>std::vector<size_t>\<close> (\<open>row_to_id\<close> in the spec), \<^verbatim>\<open>str_ids_to_offsets_\<close> a map from
  \<^verbatim>\<open>size_t\<close> to \<^verbatim>\<open>std::vector<size_t>\<close> (\<open>id_to_offsets\<close>). A name cannot end with an
  underscore here: the members are named without it.
\<close>

record StringIndexMarisa =
  trie :: "marisa_trie option"
  str_ids :: "size_t list"
  str_ids_to_offsets :: "size_t \<rightharpoonup> nat list"
  built :: bool

text \<open>Modelled from the spec: an index is constructed empty, in the state \<open>Unbuilt\<close>.\<close>

definition empty_index :: StringIndexMarisa where
  "empty_index = \<lparr>trie = None, str_ids = [], str_ids_to_offsets = Map.empty, built = False\<rparr>"

text \<open>
  \<^verbatim>\<open>std::map::operator[]\<close>: the value stored under the key; a key that is absent is first
  inserted with an empty vector.
\<close>

definition map_subscript :: "(size_t \<rightharpoonup> nat list) \<Rightarrow> size_t \<Rightarrow> nat list \<times> (size_t \<rightharpoonup> nat list)" where
  "map_subscript m k = (case m k of None \<Rightarrow> ([], m(k \<mapsto> [])) | Some v \<Rightarrow> (v, m))"

definition Size :: "StringIndexMarisa \<Rightarrow> (error + nat) \<times> StringIndexMarisa" where
  "Size st = (trie_size (trie st), st)"

text \<open>
  \<^verbatim>\<open>lookup\<close> returns \<^verbatim>\<open>agent.key().id()\<close> whatever \<^verbatim>\<open>trie_.lookup(agent)\<close> returned.
\<close>

definition lookup :: "StringIndexMarisa \<Rightarrow> string \<Rightarrow> error + size_t" where
  "lookup st str =
     (case trie_lookup (trie st) (set_query Agent (c_str str)) of
        Inl e \<Rightarrow> Inl e
      | Inr (found, a) \<Rightarrow> Inr (key_id a))"

function prefix_match_loop :: "marisa_trie option \<Rightarrow> agent \<Rightarrow> size_t list \<Rightarrow> error + size_t list" where
  "prefix_match_loop h a ret =
     (case trie_predictive_search h a of
        Inl e \<Rightarrow> Inl e
      | Inr (found, a') \<Rightarrow>
          if found then prefix_match_loop h a' (ret @ [key_id a']) else Inr ret)"
  by pat_completeness auto
termination
proof (relation "measure (\<lambda>(h, a, ret).
    case h of None \<Rightarrow> 0 | Some t \<Rightarrow> length (matching_ids t (query a)) - reported a)")
  show "wf (measure (\<lambda>(h, a, ret).
    case h of None \<Rightarrow> 0 | Some t \<Rightarrow> length (matching_ids t (query a)) - reported a))"
    by simp
next
  fix h :: "marisa_trie option" and a :: agent and ret :: "size_t list"
    and x2 :: "bool \<times> agent" and found :: bool and a' :: agent
  assume "trie_predictive_search h a = Inr x2" and "(found, a') = x2" and found
  then show "((h, a', ret @ [key_id a']), (h, a, ret)) \<in> measure (\<lambda>(h, a, ret).
    case h of None \<Rightarrow> 0 | Some t \<Rightarrow> length (matching_ids t (query a)) - reported a)"
    by (auto simp: trie_predictive_search_def split: option.splits if_splits)
qed

declare prefix_match_loop.simps [simp del]

definition prefix_match :: "StringIndexMarisa \<Rightarrow> string \<Rightarrow> error + size_t list" where
  "prefix_match st pre = prefix_match_loop (trie st) (set_query Agent (c_str pre)) []"

fun fill_str_ids_loop ::
  "StringIndexMarisa \<Rightarrow> nat \<Rightarrow> string list \<Rightarrow> (error + unit) \<times> StringIndexMarisa" where
  "fill_str_ids_loop st i [] = (Inr (), st)"
| "fill_str_ids_loop st i (str # rest) =
     (case lookup st str of
        Inl e \<Rightarrow> (Inl e, st)
      | Inr str_id \<Rightarrow>
          if 0 \<le> str_id
          then fill_str_ids_loop (st\<lparr>str_ids := (str_ids st)[i := str_id]\<rparr>) (Suc i) rest
          else (Inl AssertionFailed, st))"

definition fill_str_ids :: "StringIndexMarisa \<Rightarrow> string list \<Rightarrow> (error + unit) \<times> StringIndexMarisa" where
  "fill_str_ids st values =
     fill_str_ids_loop (st\<lparr>str_ids := resize (length values) (str_ids st)\<rparr>) 0 values"

definition fill_offsets_step :: "size_t list \<Rightarrow> (size_t \<rightharpoonup> nat list) \<Rightarrow> nat \<Rightarrow> (size_t \<rightharpoonup> nat list)" where
  "fill_offsets_step ids m offset =
     (let str_id = ids ! offset;
          m1 = (if m str_id = None then m(str_id \<mapsto> []) else m)
      in case m1 str_id of
           None \<Rightarrow> m1
         | Some offsets \<Rightarrow> m1(str_id \<mapsto> offsets @ [offset]))"

fun fill_offsets_loop :: "size_t list \<Rightarrow> nat list \<Rightarrow> (size_t \<rightharpoonup> nat list) \<Rightarrow> (size_t \<rightharpoonup> nat list)" where
  "fill_offsets_loop ids [] m = m"
| "fill_offsets_loop ids (offset # rest) m = fill_offsets_loop ids rest (fill_offsets_step ids m offset)"

definition fill_offsets :: "StringIndexMarisa \<Rightarrow> StringIndexMarisa" where
  "fill_offsets st =
     st\<lparr>str_ids_to_offsets :=
          fill_offsets_loop (str_ids st) [0..<length (str_ids st)] (str_ids_to_offsets st)\<rparr>"

definition Build ::
  "(string list \<Rightarrow> string list) \<Rightarrow> StringIndexMarisa \<Rightarrow> string list \<Rightarrow> (error + unit) \<times> StringIndexMarisa" where
  "Build ord st values =
     (if built st then (Inl IndexHasBeenBuilt, st)
      else
        let keyset = map c_str values;
            st1 = st\<lparr>trie := trie_build ord keyset\<rparr>
        in case fill_str_ids st1 values of
             (Inl e, st2) \<Rightarrow> (Inl e, st2)
           | (Inr u, st2) \<Rightarrow> (Inr (), (fill_offsets st2)\<lparr>built := True\<rparr>))"

text \<open>
  The staging file of \<^verbatim>\<open>Serialize\<close> and \<^verbatim>\<open>Load\<close> only carries the bytes between the engine and
  the buffer; it is modelled by the bytes themselves. The configuration object is read by
  \<^verbatim>\<open>Disassemble\<close> alone.
\<close>

definition Serialize ::
  "(marisa_trie \<Rightarrow> byte list) \<Rightarrow> StringIndexMarisa \<Rightarrow> (error + BinarySet) \<times> StringIndexMarisa" where
  "Serialize tw st =
     (case trie_write tw (trie st) of
        Inl e \<Rightarrow> (Inl e, st)
      | Inr index_data \<Rightarrow>
          let ids_data = bytes_of_size_t_array (str_ids st);
              res_set = Append (Append BinarySet_empty MARISA_TRIE_INDEX index_data) MARISA_STR_IDS ids_data
          in (Inr (Disassemble res_set), st))"

definition Load ::
  "(byte list \<Rightarrow> marisa_trie option) \<Rightarrow> StringIndexMarisa \<Rightarrow> BinarySet \<Rightarrow> (error + unit) \<times> StringIndexMarisa" where
  "Load tr st set0 =
     (let s = Assemble set0 in
      case GetByName s MARISA_TRIE_INDEX of
        Inl e \<Rightarrow> (Inl e, st)
      | Inr index \<Rightarrow>
          (case trie_read tr index of
             Inl e \<Rightarrow> (Inl e, st)
           | Inr h \<Rightarrow>
               let st1 = st\<lparr>trie := h\<rparr> in
               (case GetByName s MARISA_STR_IDS of
                  Inl e \<Rightarrow> (Inl e, st1)
                | Inr ids_data \<Rightarrow>
                    let str_ids_len = length ids_data;
                        st2 = st1\<lparr>str_ids := resize (str_ids_len div 8) (str_ids st1)\<rparr>
                    in (case memcpy_size_t (str_ids st2) ids_data of
                          Inl e \<Rightarrow> (Inl e, st2)
                        | Inr ids \<Rightarrow> (Inr (), fill_offsets (st2\<lparr>str_ids := ids\<rparr>))))))"

fun set_offsets :: "nat list \<Rightarrow> TargetBitmap \<Rightarrow> error + TargetBitmap" where
  "set_offsets [] bitset = Inr bitset"
| "set_offsets (offset # rest) bitset =
     (case bitset_set bitset offset of Inl e \<Rightarrow> Inl e | Inr bitset' \<Rightarrow> set_offsets rest bitset')"

fun reset_offsets :: "nat list \<Rightarrow> TargetBitmap \<Rightarrow> error + TargetBitmap" where
  "reset_offsets [] bitset = Inr bitset"
| "reset_offsets (offset # rest) bitset =
     (case bitset_reset bitset offset of Inl e \<Rightarrow> Inl e | Inr bitset' \<Rightarrow> reset_offsets rest bitset')"

fun In_loop ::
  "StringIndexMarisa \<Rightarrow> string list \<Rightarrow> TargetBitmap \<Rightarrow> (error + TargetBitmap) \<times> StringIndexMarisa" where
  "In_loop st [] bitset = (Inr bitset, st)"
| "In_loop st (str # rest) bitset =
     (case lookup st str of
        Inl e \<Rightarrow> (Inl e, st)
      | Inr str_id \<Rightarrow>
          if 0 \<le> str_id
          then
            (case map_subscript (str_ids_to_offsets st) str_id of
               (offsets, m) \<Rightarrow>
                 (case set_offsets offsets bitset of
                    Inl e \<Rightarrow> (Inl e, st\<lparr>str_ids_to_offsets := m\<rparr>)
                  | Inr bitset' \<Rightarrow> In_loop (st\<lparr>str_ids_to_offsets := m\<rparr>) rest bitset'))
          else In_loop st rest bitset)"

definition In :: "StringIndexMarisa \<Rightarrow> string list \<Rightarrow> (error + TargetBitmap) \<times> StringIndexMarisa" where
  "In st values = In_loop st values (make_bitmap (length (str_ids st)))"

fun NotIn_loop ::
  "StringIndexMarisa \<Rightarrow> string list \<Rightarrow> TargetBitmap \<Rightarrow> (error + TargetBitmap) \<times> StringIndexMarisa" where
  "NotIn_loop st [] bitset = (Inr bitset, st)"
| "NotIn_loop st (str # rest) bitset =
     (case lookup st str of
        Inl e \<Rightarrow> (Inl e, st)
      | Inr str_id \<Rightarrow>
          if 0 \<le> str_id
          then
            (case map_subscript (str_ids_to_offsets st) str_id of
               (offsets, m) \<Rightarrow>
                 (case reset_offsets offsets bitset of
                    Inl e \<Rightarrow> (Inl e, st\<lparr>str_ids_to_offsets := m\<rparr>)
                  | Inr bitset' \<Rightarrow> NotIn_loop (st\<lparr>str_ids_to_offsets := m\<rparr>) rest bitset'))
          else NotIn_loop st rest bitset)"

definition NotIn :: "StringIndexMarisa \<Rightarrow> string list \<Rightarrow> (error + TargetBitmap) \<times> StringIndexMarisa" where
  "NotIn st values =
     NotIn_loop st values (bitset_set_all (make_bitmap (length (str_ids st))))"

text \<open>The two overloads of \<^verbatim>\<open>Range\<close>: one bound with an operator, and two bounds.\<close>

definition Range ::
  "StringIndexMarisa \<Rightarrow> string \<Rightarrow> 'op \<Rightarrow> (error + TargetBitmap) \<times> StringIndexMarisa" where
  "Range st v op = (Inl Unsupported, st)"

definition Range_bounds ::
  "StringIndexMarisa \<Rightarrow> string \<Rightarrow> bool \<Rightarrow> string \<Rightarrow> bool \<Rightarrow>
   (error + TargetBitmap) \<times> StringIndexMarisa" where
  "Range_bounds st lower_bound_value lb_inclusive upper_bound_value ub_inclusive =
     (Inl Unsupported, st)"

fun PrefixMatch_loop ::
  "StringIndexMarisa \<Rightarrow> size_t list \<Rightarrow> TargetBitmap \<Rightarrow> (error + TargetBitmap) \<times> StringIndexMarisa" where
  "PrefixMatch_loop st [] bitset = (Inr bitset, st)"
| "PrefixMatch_loop st (str_id # rest) bitset =
     (case map_subscript (str_ids_to_offsets st) str_id of
        (offsets, m) \<Rightarrow>
          (case set_offsets offsets bitset of
             Inl e \<Rightarrow> (Inl e, st\<lparr>str_ids_to_offsets := m\<rparr>)
           | Inr bitset' \<Rightarrow> PrefixMatch_loop (st\<lparr>str_ids_to_offsets := m\<rparr>) rest bitset'))"

definition PrefixMatch :: "StringIndexMarisa \<Rightarrow> string \<Rightarrow> (error + TargetBitmap) \<times> StringIndexMarisa" where
  "PrefixMatch st pre =
     (case prefix_match st pre of
        Inl e \<Rightarrow> (Inl e, st)
      | Inr matched \<Rightarrow> PrefixMatch_loop st matched (make_bitmap (length (str_ids st))))"

section \<open>Notions used to state the properties\<close>

text \<open>
  The offsets stored under an ID, an absent entry read as the empty list, and the ascending
  list of the rows of \<open>row_to_id\<close> that hold a given ID.
\<close>

definition offsets_at :: "(size_t \<rightharpoonup> nat list) \<Rightarrow> size_t \<Rightarrow> nat list" where
  "offsets_at m k = (case m k of None \<Rightarrow> [] | Some v \<Rightarrow> v)"

definition rows_of :: "size_t list \<Rightarrow> size_t \<Rightarrow> nat list" where
  "rows_of ids k = filter (\<lambda>offset. ids ! offset = k) [0..<length ids]"

text \<open>
  The ID that \<open>lookup\<close> returns for a value on a built trie: the position of the value's
  C string among the keys, and the ID 0 of the untouched agent when it is not among them.
\<close>

definition lookup_id :: "marisa_trie \<Rightarrow> string \<Rightarrow> size_t" where
  "lookup_id t str = (case key_index (keys t) (c_str str) of None \<Rightarrow> 0 | Some j \<Rightarrow> of_nat j)"

text \<open>
  A successfully built instance: the result of a successful \<open>Build\<close> or \<open>Load\<close> on a newly
  constructed index, at any later moment of its read-only life, that is after any number of
  queries.
\<close>

inductive built_instance :: "StringIndexMarisa \<Rightarrow> bool" where
  by_Build: "Build ord empty_index values = (Inr (), X) \<Longrightarrow> built_instance X"
| by_Load: "Load tr empty_index blobs = (Inr (), X) \<Longrightarrow> built_instance X"
| after_In: "built_instance X \<Longrightarrow> In X values = (r, X') \<Longrightarrow> built_instance X'"
| after_NotIn: "built_instance X \<Longrightarrow> NotIn X values = (r, X') \<Longrightarrow> built_instance X'"
| after_PrefixMatch: "built_instance X \<Longrightarrow> PrefixMatch X pre = (r, X') \<Longrightarrow> built_instance X'"

text \<open>
  An engine to run the operations on concrete inputs. It numbers the distinct keys of a keyset
  in the order of \<open>remdups\<close> and writes a trie as its keys, each followed by a NUL byte; it
  rejects bytes that do not end with a NUL byte.
\<close>

definition example_write :: "marisa_trie \<Rightarrow> byte list" where
  "example_write t = concat (map (\<lambda>k. map (\<lambda>c. of_nat (of_char c)) k @ [0]) (keys t))"

fun split_keys :: "byte list \<Rightarrow> string \<Rightarrow> string list option" where
  "split_keys [] cur = (if cur = [] then Some [] else None)"
| "split_keys (b # bs) cur =
     (if b = 0 then map_option ((#) (rev cur)) (split_keys bs [])
      else split_keys bs (char_of (unat b) # cur))"

definition example_read :: "byte list \<Rightarrow> marisa_trie option" where
  "example_read bs = map_option Trie (split_keys bs [])"

text \<open>
  Two instances that a query cannot tell apart: the same trie, the same \<open>row_to_id\<close>, and
  under every ID the same offsets, an absent entry read as the empty list.
\<close>

definition same_view :: "StringIndexMarisa \<Rightarrow> StringIndexMarisa \<Rightarrow> bool" where
  "same_view X Y \<longleftrightarrow>
     trie X = trie Y \<and> str_ids X = str_ids Y \<and>
     offsets_at (str_ids_to_offsets X) = offsets_at (str_ids_to_offsets Y)"

text \<open>
  Serializing an instance and loading the resulting blob set into a newly constructed one.
\<close>

definition Load_Serialize ::
  "(marisa_trie \<Rightarrow> byte list) \<Rightarrow> (byte list \<Rightarrow> marisa_trie option) \<Rightarrow> StringIndexMarisa \<Rightarrow>
   (error + unit) \<times> StringIndexMarisa" where
  "Load_Serialize tw tr X =
     (case Serialize tw X of
        (Inl e, X') \<Rightarrow> (Inl e, empty_index)
      | (Inr blobs, X') \<Rightarrow> Load tr empty_index blobs)"

text \<open>Instances obtained by running the operations with this engine.\<close>

definition example_index :: StringIndexMarisa where
  "example_index = snd (Build remdups empty_index [''a'', ''b'', ''a''])"

definition example_reloaded :: StringIndexMarisa where
  "example_reloaded = snd (Load_Serialize example_write example_read example_index)"

definition example_loaded :: StringIndexMarisa where
  "example_loaded =
     snd (Load_Serialize example_write example_read (snd (Build remdups empty_index [''a'', ''a''])))"

definition example_rebuilt :: StringIndexMarisa where
  "example_rebuilt = snd (Build remdups example_loaded [''a'', ''b''])"

text \<open>
  A decoder that restores the keys of the example engine in the reverse order, so that every
  key gets another ID than it had when the trie was written.
\<close>

definition example_read_reversed :: "byte list \<Rightarrow> marisa_trie option" where
  "example_read_reversed bs = map_option (\<lambda>t. Trie (rev (keys t))) (example_read bs)"

text \<open>
  The blob set serialized from the index built over given rows, and instances loaded twice:
  the same blob set loaded a second time, and a second blob set loaded over a first.
\<close>

definition example_blobs :: "string list \<Rightarrow> BinarySet" where
  "example_blobs rows =
     (case fst (Serialize example_write (snd (Build remdups empty_index rows))) of
        Inl e \<Rightarrow> BinarySet_empty
      | Inr blobs \<Rightarrow> blobs)"

definition example_loaded_twice :: StringIndexMarisa where
  "example_loaded_twice =
     snd (Load example_read (snd (Load example_read empty_index (example_blobs [''a'', ''a''])))
            (example_blobs [''a'', ''a'']))"

definition example_loaded_over :: StringIndexMarisa where
  "example_loaded_over =
     snd (Load example_read (snd (Load example_read empty_index (example_blobs [''a'', ''a''])))
            (example_blobs [''a'', ''b'']))"

text \<open>The instance after the first of these loads.\<close>

definition example_state_aa :: StringIndexMarisa where
  "example_state_aa = \<lparr>trie = Some (Trie [''a'']), str_ids = [0, 0],
               str_ids_to_offsets = [0 \<mapsto> [0, 1]], built = False\<rparr>"

section \<open>Raw bytes: reading back what was written\<close>

lemma length_size_t_bytes: "length (size_t_bytes w) = 8"
  by (simp add: size_t_bytes_def)

lemma size_t_of_bytes_inverse: "size_t_of_bytes (size_t_bytes w) = w"
proof (rule bit_word_eqI)
  fix n :: nat
  assume n: "n < LENGTH(64)"
  then have d: "n div 8 < 8" by simp
  have m: "n mod 8 < 8" by simp
  have e: "8 * (n div 8) + n mod 8 = n" by simp
  have "bit (size_t_of_bytes (size_t_bytes w)) n
      = bit ((map (\<lambda>i. ucast (drop_bit (8 * i) w) :: byte) [0..<8]) ! (n div 8)) (n mod 8)"
    using n d
    by (simp add: size_t_of_bytes_def size_t_bytes_def bit_word_of_int_iff
        bit_horner_sum_uint_exp_iff [where 'a = 8, simplified] del: upt_Suc)
  also have "\<dots> = bit (ucast (drop_bit (8 * (n div 8)) w) :: byte) (n mod 8)"
    using d by (simp del: upt_Suc)
  also have "\<dots> = bit w n"
    using m e by (simp add: bit_ucast_iff bit_drop_bit_eq)
  finally show "bit (size_t_of_bytes (size_t_bytes w)) n = bit w n" .
qed

lemma length_bytes_of_size_t_array: "length (bytes_of_size_t_array xs) = 8 * length xs"
  by (induction xs) (simp_all add: bytes_of_size_t_array_def length_size_t_bytes)

lemma length_size_t_array_of_bytes: "length (size_t_array_of_bytes n bs) = n"
  by (induction n arbitrary: bs) simp_all

lemma size_t_array_of_bytes_inverse:
  "size_t_array_of_bytes (length xs) (bytes_of_size_t_array xs @ rest) = xs"
proof (induction xs)
  case Nil
  show ?case by simp
next
  case (Cons x xs)
  have split: "bytes_of_size_t_array (x # xs) = size_t_bytes x @ bytes_of_size_t_array xs"
    by (simp add: bytes_of_size_t_array_def)
  show ?case
    using Cons.IH by (simp add: split length_size_t_bytes size_t_of_bytes_inverse)
qed

lemma memcpy_size_t_whole:
  assumes "length src = 8 * length dst"
  shows "memcpy_size_t dst src = Inr (size_t_array_of_bytes (length dst) src)"
  using assms by (simp add: memcpy_size_t_def Let_def length_bytes_of_size_t_array)

lemma memcpy_size_t_overrun:
  assumes "8 * length dst < length src"
  shows "memcpy_size_t dst src = Inl UndefinedBehaviour"
  using assms by (simp add: memcpy_size_t_def Let_def length_bytes_of_size_t_array)

lemma length_resize: "length (resize n xs) = n"
  by (simp add: resize_def)

section \<open>What \<open>fill_offsets\<close> computes\<close>

lemma fill_offsets_step_apply:
  "fill_offsets_step ids m offset k =
     (if ids ! offset = k then Some (offsets_at m k @ [offset]) else m k)"
  by (simp add: fill_offsets_step_def offsets_at_def Let_def split: option.splits)

lemma fill_offsets_loop_apply:
  "fill_offsets_loop ids os m k =
     (if filter (\<lambda>offset. ids ! offset = k) os = [] then m k
      else Some (offsets_at m k @ filter (\<lambda>offset. ids ! offset = k) os))"
proof (induction os arbitrary: m)
  case Nil
  show ?case by simp
next
  case (Cons offset os)
  show ?case
    by (simp add: Cons.IH fill_offsets_step_apply offsets_at_def)
qed

lemma fill_offsets_apply:
  "str_ids_to_offsets (fill_offsets st) k =
     (if rows_of (str_ids st) k = [] then str_ids_to_offsets st k
      else Some (offsets_at (str_ids_to_offsets st) k @ rows_of (str_ids st) k))"
  by (simp add: fill_offsets_def fill_offsets_loop_apply rows_of_def)

lemma fill_offsets_frame:
  "trie (fill_offsets st) = trie st" "str_ids (fill_offsets st) = str_ids st"
  "built (fill_offsets st) = built st"
  by (simp_all add: fill_offsets_def)

section \<open>\<open>NotIn\<close> against \<open>In\<close>\<close>

lemma set_offsets_reset_offsets:
  "reset_offsets os (map Not bs) = map_sum id (map Not) (set_offsets os bs)"
proof (induction os arbitrary: bs)
  case Nil
  show ?case by simp
next
  case (Cons offset os)
  show ?case
    using Cons.IH [of "bs[offset := True]"]
    by (simp add: bitset_set_def bitset_reset_def map_update)
qed

lemma NotIn_loop_In_loop:
  "NotIn_loop st values (map Not bs) =
     (map_sum id (map Not) (fst (In_loop st values bs)), snd (In_loop st values bs))"
proof (induction "values" arbitrary: st bs)
  case Nil
  show ?case by simp
next
  case (Cons str rest)
  show ?case
  proof (cases "lookup st str")
    case (Inl e)
    then show ?thesis by simp
  next
    case (Inr str_id)
    obtain offsets m where sub: "map_subscript (str_ids_to_offsets st) str_id = (offsets, m)"
      by (cases "map_subscript (str_ids_to_offsets st) str_id")
    show ?thesis
    proof (cases "set_offsets offsets bs")
      case (Inl e)
      then show ?thesis
        using Inr sub by (simp add: set_offsets_reset_offsets)
    next
      case bs': (Inr bs')
      then show ?thesis
        using Inr sub Cons.IH [of "st\<lparr>str_ids_to_offsets := m\<rparr>" bs']
        by (simp add: set_offsets_reset_offsets)
    qed
  qed
qed

lemma NotIn_as_In:
  "NotIn st values = (map_sum id (map Not) (fst (In st values)), snd (In st values))"
proof -
  have "bitset_set_all (make_bitmap n) = map Not (make_bitmap n)" for n
    by (simp add: bitset_set_all_def make_bitmap_def)
  then show ?thesis
    by (simp add: NotIn_def In_def NotIn_loop_In_loop)
qed

text \<open>
  C2. On every instance and for every list of query values, \<open>NotIn\<close> returns the bitwise
  negation of the bitmap that \<open>In\<close> returns; it fails exactly when \<open>In\<close> fails, with the
  same error, and leaves the instance in the same state as \<open>In\<close>.
\<close>

theorem NotIn_negates_In:
  "fst (NotIn st values) = map_sum id (map Not) (fst (In st values)) \<and>
   snd (NotIn st values) = snd (In st values)"
  by (simp add: NotIn_as_In)

section \<open>Queries see the offsets only\<close>

lemma map_subscript_fst: "fst (map_subscript m k) = offsets_at m k"
  by (simp add: map_subscript_def offsets_at_def split: option.splits)

lemma map_subscript_snd: "offsets_at (snd (map_subscript m k)) = offsets_at m"
  by (rule ext) (simp add: map_subscript_def offsets_at_def split: option.splits)

lemma same_view_refl: "same_view X X"
  by (simp add: same_view_def)

lemma same_view_sym: "same_view X Y \<Longrightarrow> same_view Y X"
  by (simp add: same_view_def)

lemma same_view_trans: "same_view X Y \<Longrightarrow> same_view Y Z \<Longrightarrow> same_view X Z"
  by (simp add: same_view_def)

lemma same_view_subscript:
  "same_view (X\<lparr>str_ids_to_offsets := snd (map_subscript (str_ids_to_offsets X) k)\<rparr>) X"
  by (simp add: same_view_def map_subscript_snd)

lemma lookup_same_view: "same_view X Y \<Longrightarrow> lookup X str = lookup Y str"
  by (simp add: same_view_def lookup_def)

lemma In_loop_frame: "same_view (snd (In_loop X values bs)) X"
proof (induction "values" arbitrary: X bs)
  case Nil
  show ?case by (simp add: same_view_refl)
next
  case (Cons str rest)
  show ?case
  proof (cases "lookup X str")
    case (Inl e)
    then show ?thesis by (simp add: same_view_refl)
  next
    case (Inr str_id)
    let ?X1 = "X\<lparr>str_ids_to_offsets := snd (map_subscript (str_ids_to_offsets X) str_id)\<rparr>"
    have X1: "same_view ?X1 X" by (rule same_view_subscript)
    show ?thesis
    proof (cases "set_offsets (fst (map_subscript (str_ids_to_offsets X) str_id)) bs")
      case (Inl e)
      then show ?thesis using Inr X1 by (simp add: case_prod_unfold)
    next
      case bs': (Inr bs')
      have "same_view (snd (In_loop ?X1 rest bs')) ?X1" by (rule Cons.IH)
      then have "same_view (snd (In_loop ?X1 rest bs')) X" using X1 by (rule same_view_trans)
      then show ?thesis using Inr bs' by (simp add: case_prod_unfold)
    qed
  qed
qed

lemma In_loop_same_view:
  "same_view X Y \<Longrightarrow> fst (In_loop X values bs) = fst (In_loop Y values bs)"
proof (induction "values" arbitrary: X Y bs)
  case Nil
  show ?case by simp
next
  case (Cons str rest)
  have lk: "lookup X str = lookup Y str" using Cons.prems by (rule lookup_same_view)
  show ?case
  proof (cases "lookup Y str")
    case (Inl e)
    then show ?thesis using lk by simp
  next
    case (Inr str_id)
    let ?X1 = "X\<lparr>str_ids_to_offsets := snd (map_subscript (str_ids_to_offsets X) str_id)\<rparr>"
    let ?Y1 = "Y\<lparr>str_ids_to_offsets := snd (map_subscript (str_ids_to_offsets Y) str_id)\<rparr>"
    have os: "fst (map_subscript (str_ids_to_offsets X) str_id)
            = fst (map_subscript (str_ids_to_offsets Y) str_id)"
      using Cons.prems by (simp add: map_subscript_fst same_view_def)
    have "same_view ?X1 X" by (rule same_view_subscript)
    moreover have "same_view Y ?Y1" by (rule same_view_sym) (rule same_view_subscript)
    ultimately have view: "same_view ?X1 ?Y1"
      using Cons.prems by (meson same_view_trans)
    show ?thesis
    proof (cases "set_offsets (fst (map_subscript (str_ids_to_offsets Y) str_id)) bs")
      case (Inl e)
      then show ?thesis using Inr lk os by (simp add: case_prod_unfold)
    next
      case bs': (Inr bs')
      show ?thesis
        using Inr lk os bs' Cons.IH [OF view, of bs'] by (simp add: case_prod_unfold)
    qed
  qed
qed

lemma PrefixMatch_loop_frame: "same_view (snd (PrefixMatch_loop X matched bs)) X"
proof (induction matched arbitrary: X bs)
  case Nil
  show ?case by (simp add: same_view_refl)
next
  case (Cons str_id rest)
  let ?X1 = "X\<lparr>str_ids_to_offsets := snd (map_subscript (str_ids_to_offsets X) str_id)\<rparr>"
  have X1: "same_view ?X1 X" by (rule same_view_subscript)
  show ?case
  proof (cases "set_offsets (fst (map_subscript (str_ids_to_offsets X) str_id)) bs")
    case (Inl e)
    then show ?thesis using X1 by (simp add: case_prod_unfold)
  next
    case bs': (Inr bs')
    have "same_view (snd (PrefixMatch_loop ?X1 rest bs')) ?X1" by (rule Cons.IH)
    then have "same_view (snd (PrefixMatch_loop ?X1 rest bs')) X" using X1 by (rule same_view_trans)
    then show ?thesis using bs' by (simp add: case_prod_unfold)
  qed
qed

lemma PrefixMatch_loop_same_view:
  "same_view X Y \<Longrightarrow> fst (PrefixMatch_loop X matched bs) = fst (PrefixMatch_loop Y matched bs)"
proof (induction matched arbitrary: X Y bs)
  case Nil
  show ?case by simp
next
  case (Cons str_id rest)
  let ?X1 = "X\<lparr>str_ids_to_offsets := snd (map_subscript (str_ids_to_offsets X) str_id)\<rparr>"
  let ?Y1 = "Y\<lparr>str_ids_to_offsets := snd (map_subscript (str_ids_to_offsets Y) str_id)\<rparr>"
  have os: "fst (map_subscript (str_ids_to_offsets X) str_id)
          = fst (map_subscript (str_ids_to_offsets Y) str_id)"
    using Cons.prems by (simp add: map_subscript_fst same_view_def)
  have "same_view ?X1 X" by (rule same_view_subscript)
  moreover have "same_view Y ?Y1" by (rule same_view_sym) (rule same_view_subscript)
  ultimately have view: "same_view ?X1 ?Y1"
    using Cons.prems by (meson same_view_trans)
  show ?case
  proof (cases "set_offsets (fst (map_subscript (str_ids_to_offsets Y) str_id)) bs")
    case (Inl e)
    then show ?thesis using os by (simp add: case_prod_unfold)
  next
    case bs': (Inr bs')
    show ?thesis
      using os bs' Cons.IH [OF view, of bs'] by (simp add: case_prod_unfold)
  qed
qed

lemma In_frame: "same_view (snd (In X values)) X"
  by (simp add: In_def In_loop_frame)

lemma In_same_view:
  assumes view: "same_view X Y"
  shows "fst (In X values) = fst (In Y values)"
proof -
  have "length (str_ids X) = length (str_ids Y)"
    using view by (simp add: same_view_def)
  then show ?thesis
    using In_loop_same_view [OF view, of "values" "make_bitmap (length (str_ids Y))"]
    by (simp add: In_def)
qed

lemma NotIn_frame: "same_view (snd (NotIn X values)) X"
  by (simp add: NotIn_as_In In_frame)

lemma NotIn_same_view:
  assumes view: "same_view X Y"
  shows "fst (NotIn X values) = fst (NotIn Y values)"
  using In_same_view [OF view, of "values"] by (simp add: NotIn_as_In)

lemma PrefixMatch_frame: "same_view (snd (PrefixMatch X pre)) X"
proof (cases "prefix_match X pre")
  case (Inl e)
  then show ?thesis by (simp add: PrefixMatch_def same_view_refl)
next
  case (Inr matched)
  then show ?thesis by (simp add: PrefixMatch_def PrefixMatch_loop_frame)
qed

lemma PrefixMatch_same_view:
  assumes view: "same_view X Y"
  shows "fst (PrefixMatch X pre) = fst (PrefixMatch Y pre)"
proof -
  have pm: "prefix_match X pre = prefix_match Y pre"
    using view by (simp add: prefix_match_def same_view_def)
  have len: "length (str_ids X) = length (str_ids Y)"
    using view by (simp add: same_view_def)
  show ?thesis
  proof (cases "prefix_match Y pre")
    case (Inl e)
    then show ?thesis using pm by (simp add: PrefixMatch_def)
  next
    case (Inr matched)
    then show ?thesis
      using pm len PrefixMatch_loop_same_view [OF view, of matched]
      by (simp add: PrefixMatch_def)
  qed
qed


section \<open>Build and Load\<close>

lemma lookup_built_trie: "trie st = Some t \<Longrightarrow> \<exists>str_id. lookup st str = Inr str_id"
  by (simp add: lookup_def trie_lookup_def split: option.splits)


lemma lookup_update_str_ids: "lookup (st\<lparr>str_ids := ids\<rparr>) str = lookup st str"
  by (simp add: lookup_def)

lemma fill_str_ids_loop_frame:
  "trie (snd (fill_str_ids_loop st i values)) = trie st \<and>
   str_ids_to_offsets (snd (fill_str_ids_loop st i values)) = str_ids_to_offsets st \<and>
   built (snd (fill_str_ids_loop st i values)) = built st \<and>
   length (str_ids (snd (fill_str_ids_loop st i values))) = length (str_ids st)"
proof (induction "values" arbitrary: st i)
  case Nil
  show ?case by simp
next
  case (Cons str rest)
  show ?case
  proof (cases "lookup st str")
    case (Inl e)
    then show ?thesis by simp
  next
    case (Inr str_id)
    then show ?thesis
      using Cons.IH [of "st\<lparr>str_ids := (str_ids st)[i := str_id]\<rparr>" "Suc i"] by simp
  qed
qed

lemma fill_str_ids_loop_succeeds:
  "trie st = Some t \<Longrightarrow> fst (fill_str_ids_loop st i values) = Inr ()"
proof (induction "values" arbitrary: st i)
  case Nil
  show ?case by simp
next
  case (Cons str rest)
  obtain str_id where "lookup st str = Inr str_id"
    using lookup_built_trie [OF Cons.prems] by blast
  then show ?case
    using Cons.IH [of "st\<lparr>str_ids := (str_ids st)[i := str_id]\<rparr>" "Suc i"] Cons.prems by simp
qed

lemma fill_str_ids_frame:
  "trie (snd (fill_str_ids st values)) = trie st"
  "str_ids_to_offsets (snd (fill_str_ids st values)) = str_ids_to_offsets st"
  "built (snd (fill_str_ids st values)) = built st"
  "length (str_ids (snd (fill_str_ids st values))) = length values"
  using fill_str_ids_loop_frame [of "st\<lparr>str_ids := resize (length values) (str_ids st)\<rparr>" 0 "values"]
  by (simp_all add: fill_str_ids_def length_resize)

lemma fill_str_ids_succeeds:
  "trie st = Some t \<Longrightarrow> fst (fill_str_ids st values) = Inr ()"
  using fill_str_ids_loop_succeeds [of "st\<lparr>str_ids := resize (length values) (str_ids st)\<rparr>" t 0 "values"]
  by (simp add: fill_str_ids_def)

text \<open>
  \<open>Build\<close> on an instance whose built flag is set fails and leaves the instance as it was;
  on any other instance it succeeds and sets the flag.
\<close>

lemma Build_built: "built st \<Longrightarrow> Build ord st values = (Inl IndexHasBeenBuilt, st)"
  by (simp add: Build_def)

lemma Build_unbuilt:
  assumes "\<not> built st"
  shows "Build ord st values =
    (Inr (), (fill_offsets (snd (fill_str_ids (st\<lparr>trie := trie_build ord (map c_str values)\<rparr>) values)))
       \<lparr>built := True\<rparr>)"
proof -
  let ?st1 = "st\<lparr>trie := trie_build ord (map c_str values)\<rparr>"
  have "fst (fill_str_ids ?st1 values) = Inr ()"
    by (rule fill_str_ids_succeeds [where t = "Trie (ord (map c_str values))"])
       (simp add: trie_build_def)
  then obtain st2 where "fill_str_ids ?st1 values = (Inr (), st2)"
    by (cases "fill_str_ids ?st1 values") simp
  then show ?thesis using assms by (simp add: Build_def Let_def)
qed

lemma Build_result:
  assumes "Build ord st values = (Inr (), X)"
  shows "length (str_ids X) = length values"
    and "trie X = Some (Trie (ord (map c_str values)))"
    and "str_ids_to_offsets X = str_ids_to_offsets (fill_offsets (st\<lparr>str_ids := str_ids X\<rparr>))"
    and "built X"
proof -
  have nb: "\<not> built st" using assms by (auto simp: Build_def)
  let ?st2 = "snd (fill_str_ids (st\<lparr>trie := trie_build ord (map c_str values)\<rparr>) values)"
  have X: "X = (fill_offsets ?st2)\<lparr>built := True\<rparr>"
    using assms Build_unbuilt [OF nb, of ord "values"] by simp
  show "length (str_ids X) = length values"
    by (simp add: X fill_offsets_frame fill_str_ids_frame)
  show "trie X = Some (Trie (ord (map c_str values)))"
    by (simp add: X fill_offsets_frame fill_str_ids_frame trie_build_def)
  show "built X" by (simp add: X)
  show "str_ids_to_offsets X = str_ids_to_offsets (fill_offsets (st\<lparr>str_ids := str_ids X\<rparr>))"
    by (simp add: X fill_offsets_def fill_str_ids_frame)
qed

lemma Load_result:
  assumes "Load tr st blobs = (Inr (), X)"
  shows "\<exists>index t ids_data.
      GetByName blobs MARISA_TRIE_INDEX = Inr index \<and> tr index = Some t \<and>
      GetByName blobs MARISA_STR_IDS = Inr ids_data \<and> length ids_data = 8 * (length ids_data div 8) \<and>
      X = fill_offsets (st\<lparr>trie := Some t,
            str_ids := size_t_array_of_bytes (length ids_data div 8) ids_data\<rparr>)"
proof -
  obtain index where index: "GetByName blobs MARISA_TRIE_INDEX = Inr index"
    using assms by (cases "GetByName blobs MARISA_TRIE_INDEX") (simp_all add: Load_def Assemble_def)
  obtain t where t: "tr index = Some t"
    using assms index by (cases "tr index") (simp_all add: Load_def Assemble_def trie_read_def)
  obtain ids_data where ids: "GetByName blobs MARISA_STR_IDS = Inr ids_data"
    using assms index t
    by (cases "GetByName blobs MARISA_STR_IDS") (simp_all add: Load_def Assemble_def trie_read_def)
  let ?n = "length ids_data div 8"
  have aligned: "length ids_data = 8 * ?n"
  proof (rule ccontr)
    assume "length ids_data \<noteq> 8 * ?n"
    then have "8 * length (resize ?n (str_ids st)) < length ids_data"
      by (simp add: length_resize)
    then have "memcpy_size_t (resize ?n (str_ids st)) ids_data = Inl UndefinedBehaviour"
      by (rule memcpy_size_t_overrun)
    then show False
      using assms index t ids by (simp add: Load_def Assemble_def trie_read_def)
  qed
  have "memcpy_size_t (resize ?n (str_ids st)) ids_data = Inr (size_t_array_of_bytes ?n ids_data)"
    using memcpy_size_t_whole [of ids_data "resize ?n (str_ids st)"] aligned
    by (simp add: length_resize)
  then have "X = fill_offsets (st\<lparr>trie := Some t, str_ids := size_t_array_of_bytes ?n ids_data\<rparr>)"
    using assms index t ids by (simp add: Load_def Assemble_def trie_read_def)
  then show ?thesis using index t ids aligned by blast
qed


section \<open>The offset partition\<close>

lemma set_rows_of: "set (rows_of ids k) = {i. i < length ids \<and> ids ! i = k}"
  by (auto simp: rows_of_def)

lemma sorted_rows_of: "sorted_wrt (<) (rows_of ids k)"
  by (simp add: rows_of_def sorted_wrt_filter)

lemma distinct_rows_of: "distinct (rows_of ids k)"
  by (simp add: rows_of_def)

lemma count_list_distinct: "distinct xs \<Longrightarrow> x \<in> set xs \<Longrightarrow> count_list xs x = 1"
  by (induction xs) auto

lemma count_rows_of:
  assumes "i < length ids"
  shows "count_list (rows_of ids (ids ! i)) i = 1"
proof -
  have "i \<in> set (rows_of ids (ids ! i))"
    using assms by (simp add: set_rows_of)
  then show ?thesis
    using distinct_rows_of [of ids "ids ! i"] by (simp add: count_list_distinct)
qed

lemma fill_offsets_from_empty:
  assumes "str_ids_to_offsets st = Map.empty"
  shows "str_ids_to_offsets (fill_offsets st) k =
     (if rows_of (str_ids st) k = [] then None else Some (rows_of (str_ids st) k))"
  using assms by (simp add: fill_offsets_apply offsets_at_def)

lemma inverse_map_partition:
  assumes inv: "\<And>k. m k = (if rows_of ids k = [] then None else Some (rows_of ids k))"
  shows "i < length ids \<longrightarrow> (\<exists>xs. m (ids ! i) = Some xs \<and> count_list xs i = 1)"
    and "(\<Union>xs \<in> ran m. set xs) = {0..<length ids}"
    and "m k = Some xs \<and> i \<in> set xs \<longrightarrow> i < length ids \<and> ids ! i = k"
    and "m k = Some xs \<longrightarrow> distinct xs \<and> sorted_wrt (<) xs"
proof -
  have own: "m (ids ! j) = Some (rows_of ids (ids ! j))" if "j < length ids" for j
  proof -
    have "j \<in> set (rows_of ids (ids ! j))" using that by (simp add: set_rows_of)
    then have "rows_of ids (ids ! j) \<noteq> []" by auto
    then show ?thesis by (simp add: inv)
  qed
  have stored: "xs' = rows_of ids k'" if "m k' = Some xs'" for k' xs'
    using that by (simp add: inv split: if_splits)
  show "i < length ids \<longrightarrow> (\<exists>xs. m (ids ! i) = Some xs \<and> count_list xs i = 1)"
    using own [of i] count_rows_of [of i ids] by simp
  show "m k = Some xs \<and> i \<in> set xs \<longrightarrow> i < length ids \<and> ids ! i = k"
    using stored [of k xs] by (auto simp: set_rows_of)
  show "m k = Some xs \<longrightarrow> distinct xs \<and> sorted_wrt (<) xs"
    using stored [of k xs] by (auto simp: distinct_rows_of sorted_rows_of)
  show "(\<Union>xs \<in> ran m. set xs) = {0..<length ids}"
  proof (rule set_eqI)
    fix j
    show "j \<in> (\<Union>xs \<in> ran m. set xs) \<longleftrightarrow> j \<in> {0..<length ids}"
    proof
      assume "j \<in> (\<Union>xs \<in> ran m. set xs)"
      then obtain k' xs' where "m k' = Some xs'" and "j \<in> set xs'"
        by (auto simp: ran_def)
      then show "j \<in> {0..<length ids}"
        using stored [of k' xs'] by (simp add: set_rows_of)
    next
      assume "j \<in> {0..<length ids}"
      then have j: "j < length ids" by simp
      have "rows_of ids (ids ! j) \<in> ran m"
        using own [OF j] by (auto simp: ran_def)
      moreover have "j \<in> set (rows_of ids (ids ! j))"
        using j by (simp add: set_rows_of)
      ultimately show "j \<in> (\<Union>xs \<in> ran m. set xs)" by blast
    qed
  qed
qed

text \<open>
  C3, as amended. Offset partition. Let \<open>Build\<close> with \<open>n\<close> input values, or \<open>Load\<close> of a blob
  set whose offsets segment holds \<open>n\<close> integers, complete on an instance whose \<open>id_to_offsets\<close>
  was empty before the call (as it is on a newly constructed instance). Then \<open>row_to_id\<close> has
  \<open>n\<close> entries; for every offset \<open>i < n\<close> the list stored under \<open>row_to_id[i]\<close> contains \<open>i\<close>
  exactly once; the union of all lists is \<open>{0, ..., n-1}\<close>; an offset occurs only in the list
  of its own ID; and every list is free of duplicates and ascending.
\<close>

theorem offset_partition:
  assumes empty: "str_ids_to_offsets st = Map.empty"
    and res: "Build ord st values = (Inr (), X) \<and> n = length values \<or>
               Load tr st blobs = (Inr (), X) \<and>
               GetByName blobs MARISA_STR_IDS = Inr ids_data \<and> n = length ids_data div 8"
  shows "length (str_ids X) = n \<and>
         (i < n \<longrightarrow> (\<exists>xs. str_ids_to_offsets X (str_ids X ! i) = Some xs \<and> count_list xs i = 1)) \<and>
         (\<Union>xs \<in> ran (str_ids_to_offsets X). set xs) = {0..<n} \<and>
         (str_ids_to_offsets X k = Some xs \<and> i \<in> set xs \<longrightarrow> i < n \<and> str_ids X ! i = k) \<and>
         (str_ids_to_offsets X k = Some xs \<longrightarrow> distinct xs \<and> sorted_wrt (<) xs)"
proof -
  have len: "length (str_ids X) = n"
  proof (rule disjE [OF res])
    assume "Build ord st values = (Inr (), X) \<and> n = length values"
    then show ?thesis using Build_result(1) [of ord st "values" X] by simp
  next
    assume load: "Load tr st blobs = (Inr (), X) \<and>
      GetByName blobs MARISA_STR_IDS = Inr ids_data \<and> n = length ids_data div 8"
    then obtain t where "X = fill_offsets (st\<lparr>trie := Some t,
        str_ids := size_t_array_of_bytes (length ids_data div 8) ids_data\<rparr>)"
      using Load_result [of tr st blobs X] by auto
    then show ?thesis
      using load by (simp add: fill_offsets_frame length_size_t_array_of_bytes)
  qed
  have "str_ids_to_offsets X = str_ids_to_offsets (fill_offsets (st\<lparr>str_ids := str_ids X\<rparr>))"
  proof (rule disjE [OF res])
    assume "Build ord st values = (Inr (), X) \<and> n = length values"
    then show ?thesis using Build_result(3) by blast
  next
    assume "Load tr st blobs = (Inr (), X) \<and>
      GetByName blobs MARISA_STR_IDS = Inr ids_data \<and> n = length ids_data div 8"
    then obtain t ids where "X = fill_offsets (st\<lparr>trie := Some t, str_ids := ids\<rparr>)"
      using Load_result [of tr st blobs X] by blast
    then show ?thesis by (simp add: fill_offsets_def)
  qed
  then have inv: "str_ids_to_offsets X k' =
      (if rows_of (str_ids X) k' = [] then None else Some (rows_of (str_ids X) k'))" for k'
    using fill_offsets_from_empty [of "st\<lparr>str_ids := str_ids X\<rparr>" k'] empty by simp
  note part = inverse_map_partition [of "str_ids_to_offsets X" "str_ids X", OF inv]
  show ?thesis
    using len part(1) [of i] part(2) part(3) [of k xs i] part(4) [of k xs]
    by simp
qed


section \<open>Round trip\<close>

lemma built_instance_invariant:
  "built_instance X \<Longrightarrow>
     trie X \<noteq> None \<and> offsets_at (str_ids_to_offsets X) = rows_of (str_ids X)"
proof (induction rule: built_instance.induct)
  case (by_Build ord "values" X)
  have "str_ids_to_offsets X k =
      (if rows_of (str_ids X) k = [] then None else Some (rows_of (str_ids X) k))" for k
    using Build_result(3) [OF by_Build]
      fill_offsets_from_empty [of "empty_index\<lparr>str_ids := str_ids X\<rparr>" k]
    by (simp add: empty_index_def)
  then have "offsets_at (str_ids_to_offsets X) = rows_of (str_ids X)"
    by (auto simp: offsets_at_def fun_eq_iff)
  then show ?case using Build_result(2) [OF by_Build] by simp
next
  case (by_Load tr blobs X)
  obtain t ids where X: "X = fill_offsets (empty_index\<lparr>trie := Some t, str_ids := ids\<rparr>)"
    using Load_result [OF by_Load] by blast
  have "str_ids_to_offsets X k =
      (if rows_of (str_ids X) k = [] then None else Some (rows_of (str_ids X) k))" for k
    using fill_offsets_from_empty [of "empty_index\<lparr>trie := Some t, str_ids := ids\<rparr>" k]
    by (simp add: X empty_index_def fill_offsets_frame)
  then have "offsets_at (str_ids_to_offsets X) = rows_of (str_ids X)"
    by (auto simp: offsets_at_def fun_eq_iff)
  then show ?case by (simp add: X fill_offsets_frame)
next
  case (after_In X "values" r X')
  have "same_view X' X" using In_frame [of X "values"] after_In.hyps(2) by simp
  then show ?case using after_In.IH by (simp add: same_view_def)
next
  case (after_NotIn X "values" r X')
  have "same_view X' X" using NotIn_frame [of X "values"] after_NotIn.hyps(2) by simp
  then show ?case using after_NotIn.IH by (simp add: same_view_def)
next
  case (after_PrefixMatch X pre r X')
  have "same_view X' X" using PrefixMatch_frame [of X pre] after_PrefixMatch.hyps(2) by simp
  then show ?case using after_PrefixMatch.IH by (simp add: same_view_def)
qed

lemma segment_names_differ: "MARISA_TRIE_INDEX \<noteq> MARISA_STR_IDS"
  by (simp add: MARISA_TRIE_INDEX_def MARISA_STR_IDS_def)

lemma Serialize_built_trie:
  assumes "trie X = Some t"
  shows "Serialize tw X =
    (Inr (Append (Append BinarySet_empty MARISA_TRIE_INDEX (tw t)) MARISA_STR_IDS
            (bytes_of_size_t_array (str_ids X))), X)"
  using assms by (simp add: Serialize_def trie_write_def Disassemble_def Let_def)

lemma Load_of_segments:
  assumes "tr index = Some t"
  shows "Load tr st (Append (Append BinarySet_empty MARISA_TRIE_INDEX index) MARISA_STR_IDS
            (bytes_of_size_t_array ids)) =
    (Inr (), fill_offsets (st\<lparr>trie := Some t, str_ids := ids\<rparr>))"
proof -
  let ?blobs = "Append (Append BinarySet_empty MARISA_TRIE_INDEX index) MARISA_STR_IDS
            (bytes_of_size_t_array ids)"
  have g1: "GetByName ?blobs MARISA_TRIE_INDEX = Inr index"
    using segment_names_differ by (simp add: GetByName_def Append_def)
  have g2: "GetByName ?blobs MARISA_STR_IDS = Inr (bytes_of_size_t_array ids)"
    by (simp add: GetByName_def Append_def)
  have len: "length (bytes_of_size_t_array ids) div 8 = length ids"
    by (simp add: length_bytes_of_size_t_array)
  have "memcpy_size_t (resize (length ids) (str_ids st)) (bytes_of_size_t_array ids)
      = Inr (size_t_array_of_bytes (length ids) (bytes_of_size_t_array ids))"
    using memcpy_size_t_whole [of "bytes_of_size_t_array ids" "resize (length ids) (str_ids st)"]
    by (simp add: length_resize length_bytes_of_size_t_array)
  then have cp: "memcpy_size_t (resize (length ids) (str_ids st)) (bytes_of_size_t_array ids) = Inr ids"
    using size_t_array_of_bytes_inverse [of ids "[]"] by simp
  show ?thesis
    using assms
    by (simp add: Load_def Assemble_def g1 g2 trie_read_def len cp Let_def)
qed

text \<open>
  C1, as amended. Round trip. Let \<open>X\<close> be an instance produced by a successful \<open>Build\<close> or a
  successful \<open>Load\<close> on a newly constructed index, at any later moment of its read-only life
  (after any number of queries), let \<open>t\<close> be its trie, and let the engine's \<open>read\<close> restore
  from the bytes written for \<open>t\<close> the trie \<open>t\<close> itself, every key with the ID it had. Then
  serializing \<open>X\<close> and loading the blob set into a newly constructed instance succeeds, and on
  the loaded instance \<open>In\<close>, \<open>NotIn\<close> and \<open>PrefixMatch\<close> return, for every list of values and
  every prefix, the results they return on \<open>X\<close>.
\<close>

theorem Load_Serialize_roundtrip:
  assumes X: "built_instance X"
    and t: "trie X = Some t"
    and codec: "tr (tw t) = Some t"
  shows "fst (Load_Serialize tw tr X) = Inr () \<and>
         fst (In (snd (Load_Serialize tw tr X)) values) = fst (In X values) \<and>
         fst (NotIn (snd (Load_Serialize tw tr X)) values) = fst (NotIn X values) \<and>
         fst (PrefixMatch (snd (Load_Serialize tw tr X)) pre) = fst (PrefixMatch X pre)"
proof -
  let ?Y = "fill_offsets (empty_index\<lparr>trie := Some t, str_ids := str_ids X\<rparr>)"
  have rt: "Load_Serialize tw tr X = (Inr (), ?Y)"
    using Serialize_built_trie [OF t, of tw] Load_of_segments [of tr "tw t" t empty_index "str_ids X"] codec
    by (simp add: Load_Serialize_def)
  have "str_ids_to_offsets ?Y k =
      (if rows_of (str_ids X) k = [] then None else Some (rows_of (str_ids X) k))" for k
    using fill_offsets_from_empty [of "empty_index\<lparr>trie := Some t, str_ids := str_ids X\<rparr>" k]
    by (simp add: empty_index_def)
  then have "offsets_at (str_ids_to_offsets ?Y) = rows_of (str_ids X)"
    by (auto simp: offsets_at_def fun_eq_iff)
  then have view: "same_view ?Y X"
    using built_instance_invariant [OF X] t by (simp add: same_view_def fill_offsets_frame)
  show ?thesis
    using In_same_view [OF view, of "values"] NotIn_same_view [OF view, of "values"]
      PrefixMatch_same_view [OF view, of pre]
    by (simp add: rt)
qed

section \<open>What the queries compute\<close>

text \<open>
  The guard \<open>str_id >= 0\<close> of \<open>In\<close>, \<open>NotIn\<close> and \<open>fill_str_ids\<close> compares an unsigned
  integer with 0.
\<close>

lemma str_id_guard_always_true: "(0 :: size_t) \<le> str_id"
  by simp

lemma key_index_Some: "key_index ks q = Some j \<Longrightarrow> j < length ks \<and> ks ! j = q"
  by (induction ks arbitrary: j) (auto split: if_splits)

lemma key_index_member: "q \<in> set ks \<Longrightarrow> \<exists>j. key_index ks q = Some j"
  by (induction ks) auto

lemma key_index_None: "q \<notin> set ks \<Longrightarrow> key_index ks q = None"
  by (induction ks) auto

lemma lookup_eq_lookup_id: "trie st = Some t \<Longrightarrow> lookup st str = Inr (lookup_id t str)"
  by (simp add: lookup_def lookup_id_def trie_lookup_def set_query_def Agent_def
      split: option.splits)

lemma lookup_id_absent: "c_str str \<notin> set (keys t) \<Longrightarrow> lookup_id t str = 0"
  by (simp add: lookup_id_def key_index_None)

lemma lookup_id_eq_iff:
  assumes small: "length (keys t) \<le> 2 ^ 64"
    and v: "c_str v \<in> set (keys t)" and w: "c_str w \<in> set (keys t)"
  shows "lookup_id t v = lookup_id t w \<longleftrightarrow> c_str v = c_str w"
proof
  assume "c_str v = c_str w"
  then show "lookup_id t v = lookup_id t w" by (simp add: lookup_id_def)
next
  assume eq: "lookup_id t v = lookup_id t w"
  obtain j where j: "key_index (keys t) (c_str v) = Some j"
    using key_index_member [OF v] by blast
  obtain l where l: "key_index (keys t) (c_str w) = Some l"
    using key_index_member [OF w] by blast
  have jl: "j < 2 ^ 64" "l < 2 ^ 64"
    using key_index_Some [OF j] key_index_Some [OF l] small by simp_all
  have "(of_nat j :: size_t) = of_nat l"
    using eq by (simp add: lookup_id_def j l)
  then have "unat (of_nat j :: size_t) = unat (of_nat l :: size_t)" by simp
  then have "j = l" using jl by (simp add: unat_of_nat)
  then show "c_str v = c_str w"
    using key_index_Some [OF j] key_index_Some [OF l] by simp
qed

lemma fill_str_ids_loop_str_ids:
  assumes "trie st = Some t" and "i + length values \<le> length (str_ids st)"
  shows "str_ids (snd (fill_str_ids_loop st i values)) =
     take i (str_ids st) @ map (lookup_id t) values @ drop (i + length values) (str_ids st)"
  using assms
proof (induction "values" arbitrary: st i)
  case Nil
  then show ?case by simp
next
  case (Cons str rest)
  let ?st = "st\<lparr>str_ids := (str_ids st)[i := lookup_id t str]\<rparr>"
  have i: "i < length (str_ids st)" using Cons.prems(2) by simp
  have "str_ids (snd (fill_str_ids_loop ?st (Suc i) rest)) =
     take (Suc i) (str_ids ?st) @ map (lookup_id t) rest @ drop (Suc i + length rest) (str_ids ?st)"
    using Cons.prems by (intro Cons.IH) simp_all
  moreover have "take (Suc i) (str_ids ?st) = take i (str_ids st) @ [lookup_id t str]"
    using i by (simp add: take_Suc_conv_app_nth)
  moreover have "drop (Suc i + length rest) (str_ids ?st) = drop (Suc i + length rest) (str_ids st)"
    by simp
  ultimately show ?case
    using lookup_eq_lookup_id [OF Cons.prems(1), of str] by simp
qed

lemma fill_str_ids_str_ids:
  assumes "trie st = Some t"
  shows "str_ids (snd (fill_str_ids st values)) = map (lookup_id t) values"
  using fill_str_ids_loop_str_ids
    [of "st\<lparr>str_ids := resize (length values) (str_ids st)\<rparr>" t 0 "values"] assms
  by (simp add: fill_str_ids_def length_resize)

lemma Build_str_ids:
  assumes "Build ord st values = (Inr (), X)"
  shows "str_ids X = map (lookup_id (Trie (ord (map c_str values)))) values"
proof -
  have nb: "\<not> built st" using assms by (auto simp: Build_def)
  show ?thesis
    using assms Build_unbuilt [OF nb, of ord "values"]
      fill_str_ids_str_ids [of "st\<lparr>trie := trie_build ord (map c_str values)\<rparr>"
        "Trie (ord (map c_str values))" "values"]
    by (auto simp: fill_offsets_frame trie_build_def)
qed

lemma set_offsets_in_range:
  "\<forall>offset \<in> set os. offset < length bs \<Longrightarrow>
   set_offsets os bs = Inr (map (\<lambda>i. bs ! i \<or> i \<in> set os) [0..<length bs])"
proof (induction os arbitrary: bs)
  case Nil
  show ?case by (simp add: map_nth)
next
  case (Cons offset os)
  have "set_offsets os (bs[offset := True]) =
      Inr (map (\<lambda>i. bs[offset := True] ! i \<or> i \<in> set os) [0..<length (bs[offset := True])])"
    using Cons.prems by (intro Cons.IH) simp
  moreover have "map (\<lambda>i. bs[offset := True] ! i \<or> i \<in> set os) [0..<length bs]
      = map (\<lambda>i. bs ! i \<or> i \<in> set (offset # os)) [0..<length bs]"
    using Cons.prems by (intro map_cong) (auto simp: nth_list_update)
  ultimately show ?case
    using Cons.prems by (simp add: bitset_set_def)
qed

lemma In_loop_present:
  assumes t: "trie X = Some t"
    and inv: "\<And>k. str_ids_to_offsets X k =
        (if rows_of (str_ids X) k = [] then None else Some (rows_of (str_ids X) k))"
    and present: "\<forall>v \<in> set values. rows_of (str_ids X) (lookup_id t v) \<noteq> []"
    and len: "length bs = length (str_ids X)"
  shows "In_loop X values bs =
     (Inr (map (\<lambda>i. bs ! i \<or> (\<exists>v \<in> set values. str_ids X ! i = lookup_id t v))
        [0..<length (str_ids X)]), X)"
  using present len
proof (induction "values" arbitrary: bs)
  case Nil
  have "map ((!) bs) [0..<length bs] = bs" by (rule map_nth)
  then show ?case using Nil.prems(2) by simp
next
  case (Cons str rest)
  let ?k = "lookup_id t str"
  let ?bs = "map (\<lambda>i. bs ! i \<or> i \<in> set (rows_of (str_ids X) ?k)) [0..<length bs]"
  have ne: "rows_of (str_ids X) ?k \<noteq> []" using Cons.prems(1) by simp
  have sub: "map_subscript (str_ids_to_offsets X) ?k = (rows_of (str_ids X) ?k, str_ids_to_offsets X)"
    using ne by (simp add: map_subscript_def inv)
  have "\<forall>offset \<in> set (rows_of (str_ids X) ?k). offset < length bs"
    using Cons.prems(2) by (simp add: set_rows_of)
  then have so: "set_offsets (rows_of (str_ids X) ?k) bs = Inr ?bs"
    by (rule set_offsets_in_range)
  have len': "length ?bs = length (str_ids X)" using Cons.prems(2) by simp
  have rest: "In_loop X rest ?bs =
     (Inr (map (\<lambda>i. ?bs ! i \<or> (\<exists>v \<in> set rest. str_ids X ! i = lookup_id t v))
        [0..<length (str_ids X)]), X)"
    using Cons.prems(1) len' by (intro Cons.IH) simp_all
  have "map (\<lambda>i. ?bs ! i \<or> (\<exists>v \<in> set rest. str_ids X ! i = lookup_id t v)) [0..<length (str_ids X)]
      = map (\<lambda>i. bs ! i \<or> (\<exists>v \<in> set (str # rest). str_ids X ! i = lookup_id t v))
          [0..<length (str_ids X)]"
    using Cons.prems(2) by (intro map_cong) (auto simp: set_rows_of)
  then show ?case
    using lookup_eq_lookup_id [OF t, of str] sub so rest by simp
qed

text \<open>
  On an index built from \<open>rows\<close> by an engine that numbers every C string of the rows, with
  fewer than \<open>2^64\<close> keys: when every input value is the C string of some row, \<open>In\<close> returns
  the bitmap of the rows whose C string is that of an input value, and leaves the instance as
  it was.
\<close>

lemma In_of_present_values:
  assumes build: "Build ord empty_index rows = (Inr (), X)"
    and keys: "set (map c_str rows) \<subseteq> set (ord (map c_str rows))"
    and small: "length (ord (map c_str rows)) \<le> 2 ^ 64"
    and present: "\<forall>v \<in> set values. c_str v \<in> set (map c_str rows)"
  shows "In X values =
    (Inr (map (\<lambda>i. c_str (rows ! i) \<in> c_str ` set values) [0..<length rows]), X)"
proof -
  let ?t = "Trie (ord (map c_str rows))"
  have t: "trie X = Some ?t" by (rule Build_result(2) [OF build])
  have ids: "str_ids X = map (lookup_id ?t) rows" by (rule Build_str_ids [OF build])
  have n: "length (str_ids X) = length rows" by (simp add: ids)
  have inv: "str_ids_to_offsets X k =
      (if rows_of (str_ids X) k = [] then None else Some (rows_of (str_ids X) k))" for k
    using Build_result(3) [OF build]
      fill_offsets_from_empty [of "empty_index\<lparr>str_ids := str_ids X\<rparr>" k]
    by (simp add: empty_index_def)
  have row_key: "c_str (rows ! i) \<in> set (keys ?t)" if "i < length rows" for i
    using that keys by (auto simp: subset_iff)
  have val_key: "c_str v \<in> set (keys ?t)" if "v \<in> set values" for v
    using that present keys by (auto simp: subset_iff)
  have same: "str_ids X ! i = lookup_id ?t v \<longleftrightarrow> c_str (rows ! i) = c_str v"
    if "i < length rows" and "v \<in> set values" for i v
    using that lookup_id_eq_iff [of ?t "rows ! i" v] small row_key [OF that(1)] val_key [OF that(2)]
    by (simp add: ids)
  have pres: "\<forall>v \<in> set values. rows_of (str_ids X) (lookup_id ?t v) \<noteq> []"
  proof
    fix v assume v: "v \<in> set values"
    then have "c_str v \<in> c_str ` set rows" using present by simp
    then obtain r where "r \<in> set rows" and r: "c_str r = c_str v" by auto
    then obtain i where i: "i < length rows" and "rows ! i = r"
      by (auto simp: in_set_conv_nth)
    then have "c_str (rows ! i) = c_str v" using r by simp
    then have "str_ids X ! i = lookup_id ?t v" using same [OF i v] by simp
    then have "i \<in> set (rows_of (str_ids X) (lookup_id ?t v))"
      using i n by (simp add: set_rows_of)
    then show "rows_of (str_ids X) (lookup_id ?t v) \<noteq> []" by auto
  qed
  have "map (\<lambda>i. make_bitmap (length (str_ids X)) ! i \<or>
          (\<exists>v \<in> set values. str_ids X ! i = lookup_id ?t v)) [0..<length (str_ids X)]
      = map (\<lambda>i. c_str (rows ! i) \<in> c_str ` set values) [0..<length rows]"
    unfolding n
    by (rule map_cong) (auto simp: make_bitmap_def same)
  then show ?thesis
    using In_loop_present [of X ?t "values" "make_bitmap (length (str_ids X))", OF t inv pres]
    by (simp add: In_def make_bitmap_def)
qed


text \<open>
  A single input value that is absent from the trie selects the rows that hold the value with
  ID 0.
\<close>

lemma In_of_absent_value:
  assumes X: "built_instance X" and t: "trie X = Some t" and absent: "c_str v \<notin> set (keys t)"
  shows "fst (In X [v]) = Inr (map (\<lambda>i. str_ids X ! i = 0) [0..<length (str_ids X)])"
proof -
  let ?n = "length (str_ids X)"
  have lk: "lookup X v = Inr 0"
    using lookup_eq_lookup_id [OF t, of v] lookup_id_absent [OF absent] by simp
  have os: "fst (map_subscript (str_ids_to_offsets X) 0) = rows_of (str_ids X) 0"
    using built_instance_invariant [OF X] by (simp add: map_subscript_fst)
  have "\<forall>offset \<in> set (rows_of (str_ids X) 0). offset < length (make_bitmap ?n)"
    by (simp add: set_rows_of make_bitmap_def)
  then have "set_offsets (rows_of (str_ids X) 0) (make_bitmap ?n) =
      Inr (map (\<lambda>i. make_bitmap ?n ! i \<or> i \<in> set (rows_of (str_ids X) 0))
            [0..<length (make_bitmap ?n)])"
    by (rule set_offsets_in_range)
  moreover have "map (\<lambda>i. make_bitmap ?n ! i \<or> i \<in> set (rows_of (str_ids X) 0))
            [0..<length (make_bitmap ?n)]
      = map (\<lambda>i. str_ids X ! i = 0) [0..<?n]"
    by (simp add: make_bitmap_def set_rows_of cong: map_cong)
  ultimately have "set_offsets (fst (map_subscript (str_ids_to_offsets X) 0)) (make_bitmap ?n)
      = Inr (map (\<lambda>i. str_ids X ! i = 0) [0..<?n])"
    by (simp add: os)
  then show ?thesis
    using lk by (simp add: In_def case_prod_unfold)
qed

text \<open>
  The loop of \<open>prefix_match\<close> collects, in the engine's order, the IDs of all keys that start
  with the query.
\<close>

lemma prefix_match_loop_built:
  "prefix_match_loop (Some t) a ret = Inr (ret @ drop (reported a) (matching_ids t (query a)))"
proof (induction "Some t" a ret rule: prefix_match_loop.induct)
  case (1 a ret)
  let ?ms = "matching_ids t (query a)"
  show ?case
  proof (cases "reported a < length ?ms")
    case True
    let ?a = "a\<lparr>key_id := ?ms ! reported a, reported := Suc (reported a)\<rparr>"
    have step: "trie_predictive_search (Some t) a = Inr (True, ?a)"
      using True by (simp add: trie_predictive_search_def)
    have "prefix_match_loop (Some t) ?a (ret @ [key_id ?a]) =
        Inr ((ret @ [key_id ?a]) @ drop (reported ?a) (matching_ids t (query ?a)))"
      by (rule "1.hyps" [OF step]) simp_all
    then have "prefix_match_loop (Some t) ?a (ret @ [?ms ! reported a]) =
        Inr (ret @ drop (reported a) ?ms)"
      using True by (simp add: Cons_nth_drop_Suc)
    then show ?thesis
      by (subst prefix_match_loop.simps) (simp add: step)
  next
    case False
    then have "trie_predictive_search (Some t) a = Inr (False, a)"
      by (simp add: trie_predictive_search_def)
    then show ?thesis
      using False by (subst prefix_match_loop.simps) simp
  qed
qed

lemma prefix_match_built:
  "trie st = Some t \<Longrightarrow> prefix_match st pre = Inr (matching_ids t (c_str pre))"
  by (simp add: prefix_match_def prefix_match_loop_built set_query_def Agent_def)

lemma PrefixMatch_loop_present:
  assumes inv: "\<And>k. str_ids_to_offsets X k =
        (if rows_of (str_ids X) k = [] then None else Some (rows_of (str_ids X) k))"
    and present: "\<forall>k \<in> set matched. rows_of (str_ids X) k \<noteq> []"
    and len: "length bs = length (str_ids X)"
  shows "PrefixMatch_loop X matched bs =
     (Inr (map (\<lambda>i. bs ! i \<or> str_ids X ! i \<in> set matched) [0..<length (str_ids X)]), X)"
  using present len
proof (induction matched arbitrary: bs)
  case Nil
  have "map ((!) bs) [0..<length bs] = bs" by (rule map_nth)
  then show ?case using Nil.prems(2) by simp
next
  case (Cons k rest)
  let ?bs = "map (\<lambda>i. bs ! i \<or> i \<in> set (rows_of (str_ids X) k)) [0..<length bs]"
  have ne: "rows_of (str_ids X) k \<noteq> []" using Cons.prems(1) by simp
  have sub: "map_subscript (str_ids_to_offsets X) k = (rows_of (str_ids X) k, str_ids_to_offsets X)"
    using ne by (simp add: map_subscript_def inv)
  have "\<forall>offset \<in> set (rows_of (str_ids X) k). offset < length bs"
    using Cons.prems(2) by (simp add: set_rows_of)
  then have so: "set_offsets (rows_of (str_ids X) k) bs = Inr ?bs"
    by (rule set_offsets_in_range)
  have len': "length ?bs = length (str_ids X)" using Cons.prems(2) by simp
  have rest: "PrefixMatch_loop X rest ?bs =
     (Inr (map (\<lambda>i. ?bs ! i \<or> str_ids X ! i \<in> set rest) [0..<length (str_ids X)]), X)"
    using Cons.prems(1) len' by (intro Cons.IH) simp_all
  have "map (\<lambda>i. ?bs ! i \<or> str_ids X ! i \<in> set rest) [0..<length (str_ids X)]
      = map (\<lambda>i. bs ! i \<or> str_ids X ! i \<in> set (k # rest)) [0..<length (str_ids X)]"
    using Cons.prems(2) by (intro map_cong) (auto simp: set_rows_of)
  then show ?case
    using sub so rest by simp
qed

lemma key_index_distinct: "distinct ks \<Longrightarrow> j < length ks \<Longrightarrow> key_index ks (ks ! j) = Some j"
proof (induction ks arbitrary: j)
  case Nil
  then show ?case by simp
next
  case (Cons k ks)
  show ?case
  proof (cases j)
    case 0
    then show ?thesis by simp
  next
    case (Suc l)
    then have "ks ! l \<in> set ks" using Cons.prems(2) by simp
    then have "k \<noteq> ks ! l" using Cons.prems(1) by auto
    then show ?thesis using Suc Cons.IH [of l] Cons.prems by simp
  qed
qed

text \<open>
  An index built from at least one row by an engine that numbers exactly the distinct C strings
  of the rows: every ID of the trie, and the ID 0 of a failed lookup, has a list.
\<close>

lemma Build_every_id_has_rows:
  assumes build: "Build ord empty_index rows = (Inr (), X)"
    and dist: "distinct (ord (map c_str rows))"
    and keys: "set (ord (map c_str rows)) = set (map c_str rows)"
    and j: "j < length (ord (map c_str rows))"
  shows "rows_of (str_ids X) (of_nat j) \<noteq> []"
proof -
  let ?t = "Trie (ord (map c_str rows))"
  have ids: "str_ids X = map (lookup_id ?t) rows" by (rule Build_str_ids [OF build])
  have "ord (map c_str rows) ! j \<in> c_str ` set rows"
    using j keys nth_mem [OF j] by simp
  then obtain r where "r \<in> set rows" and r: "c_str r = ord (map c_str rows) ! j" by auto
  then obtain i where i: "i < length rows" and ri: "rows ! i = r"
    by (auto simp: in_set_conv_nth)
  have "lookup_id ?t (rows ! i) = of_nat j"
    using key_index_distinct [OF dist j] by (simp add: lookup_id_def ri r)
  then have "i \<in> set (rows_of (str_ids X) (of_nat j))"
    using i by (simp add: set_rows_of ids)
  then show ?thesis by auto
qed

text \<open>
  On such an index no query changes the instance, whatever the input values and the prefix.
\<close>

lemma queries_pure_on_nonempty_Build:
  assumes build: "Build ord empty_index rows = (Inr (), X)"
    and dist: "distinct (ord (map c_str rows))"
    and keys: "set (ord (map c_str rows)) = set (map c_str rows)"
    and ne: "rows \<noteq> []"
  shows "snd (In X values) = X \<and> snd (NotIn X values) = X \<and> snd (PrefixMatch X pre) = X"
proof -
  let ?ks = "ord (map c_str rows)"
  let ?t = "Trie ?ks"
  have t: "trie X = Some ?t" by (rule Build_result(2) [OF build])
  have inv: "str_ids_to_offsets X k =
      (if rows_of (str_ids X) k = [] then None else Some (rows_of (str_ids X) k))" for k
    using Build_result(3) [OF build]
      fill_offsets_from_empty [of "empty_index\<lparr>str_ids := str_ids X\<rparr>" k]
    by (simp add: empty_index_def)
  have some: "rows_of (str_ids X) (of_nat j) \<noteq> []" if "j < length ?ks" for j
    using Build_every_id_has_rows [OF build dist keys that] .
  have "set ?ks \<noteq> {}" using ne keys by simp
  then have pos: "0 < length ?ks" by auto
  have lk: "rows_of (str_ids X) (lookup_id ?t v) \<noteq> []" for v
  proof (cases "key_index ?ks (c_str v)")
    case None
    then show ?thesis using some [OF pos] by (simp add: lookup_id_def)
  next
    case (Some j)
    then show ?thesis using some [of j] key_index_Some [OF Some] by (simp add: lookup_id_def)
  qed
  have "In_loop X values (make_bitmap (length (str_ids X))) =
     (Inr (map (\<lambda>i. make_bitmap (length (str_ids X)) ! i \<or>
                 (\<exists>v \<in> set values. str_ids X ! i = lookup_id ?t v))
        [0..<length (str_ids X)]), X)"
    by (rule In_loop_present [OF t inv]) (simp_all add: lk make_bitmap_def)
  then have a: "snd (In X values) = X" by (simp add: In_def)
  have pm: "prefix_match X pre = Inr (matching_ids ?t (c_str pre))"
    by (rule prefix_match_built [OF t])
  have "\<forall>k \<in> set (matching_ids ?t (c_str pre)). rows_of (str_ids X) k \<noteq> []"
    using some by (auto simp: matching_ids_def)
  then have "PrefixMatch_loop X (matching_ids ?t (c_str pre)) (make_bitmap (length (str_ids X))) =
     (Inr (map (\<lambda>i. make_bitmap (length (str_ids X)) ! i \<or>
                 str_ids X ! i \<in> set (matching_ids ?t (c_str pre)))
        [0..<length (str_ids X)]), X)"
    by (intro PrefixMatch_loop_present [OF inv]) (simp_all add: make_bitmap_def)
  then have c: "snd (PrefixMatch X pre) = X" by (simp add: PrefixMatch_def pm)
  show ?thesis using a c by (simp add: NotIn_as_In)
qed


text \<open>
  With fewer than \<open>2^64\<close> keys, \<open>PrefixMatch\<close> returns the bitmap of the rows whose C string
  starts with the C string of the prefix.
\<close>

lemma PrefixMatch_of_Build:
  assumes build: "Build ord empty_index rows = (Inr (), X)"
    and dist: "distinct (ord (map c_str rows))"
    and keys: "set (ord (map c_str rows)) = set (map c_str rows)"
    and small: "length (ord (map c_str rows)) \<le> 2 ^ 64"
  shows "PrefixMatch X pre =
    (Inr (map (\<lambda>i. prefix (c_str pre) (c_str (rows ! i))) [0..<length rows]), X)"
proof -
  let ?ks = "ord (map c_str rows)"
  let ?t = "Trie ?ks"
  let ?ms = "matching_ids ?t (c_str pre)"
  have t: "trie X = Some ?t" by (rule Build_result(2) [OF build])
  have ids: "str_ids X = map (lookup_id ?t) rows" by (rule Build_str_ids [OF build])
  have n: "length (str_ids X) = length rows" by (simp add: ids)
  have inv: "str_ids_to_offsets X k =
      (if rows_of (str_ids X) k = [] then None else Some (rows_of (str_ids X) k))" for k
    using Build_result(3) [OF build]
      fill_offsets_from_empty [of "empty_index\<lparr>str_ids := str_ids X\<rparr>" k]
    by (simp add: empty_index_def)
  have pm: "prefix_match X pre = Inr ?ms"
    by (rule prefix_match_built [OF t])
  have "\<forall>k \<in> set ?ms. rows_of (str_ids X) k \<noteq> []"
    using Build_every_id_has_rows [OF build dist keys] by (auto simp: matching_ids_def)
  then have loop: "PrefixMatch_loop X ?ms (make_bitmap (length (str_ids X))) =
     (Inr (map (\<lambda>i. make_bitmap (length (str_ids X)) ! i \<or> str_ids X ! i \<in> set ?ms)
        [0..<length (str_ids X)]), X)"
    by (intro PrefixMatch_loop_present [OF inv]) (simp_all add: make_bitmap_def)
  have bit: "str_ids X ! i \<in> set ?ms \<longleftrightarrow> prefix (c_str pre) (c_str (rows ! i))"
    if i: "i < length rows" for i
  proof -
    have "c_str (rows ! i) \<in> set ?ks" using i keys by simp
    then obtain l where l: "key_index ?ks (c_str (rows ! i)) = Some l"
      using key_index_member by blast
    have l': "l < length ?ks" "?ks ! l = c_str (rows ! i)"
      using key_index_Some [OF l] by simp_all
    have id: "str_ids X ! i = of_nat l"
      using i by (simp add: ids lookup_id_def l)
    have inj: "(of_nat l :: size_t) = of_nat j \<longleftrightarrow> l = j" if "j < length ?ks" for j
    proof
      assume "(of_nat l :: size_t) = of_nat j"
      then have "unat (of_nat l :: size_t) = unat (of_nat j :: size_t)" by simp
      moreover have "l < 2 ^ 64" "j < 2 ^ 64" using l'(1) that small by simp_all
      ultimately show "l = j" by (simp add: unat_of_nat)
    qed simp
    show ?thesis
    proof
      assume "str_ids X ! i \<in> set ?ms"
      then obtain j where "j < length ?ks" and "prefix (c_str pre) (?ks ! j)"
        and "(of_nat l :: size_t) = of_nat j"
        by (auto simp: matching_ids_def id)
      then show "prefix (c_str pre) (c_str (rows ! i))"
        using inj [of j] l'(2) by simp
    next
      assume "prefix (c_str pre) (c_str (rows ! i))"
      then have "l \<in> set (filter (\<lambda>j. prefix (c_str pre) (?ks ! j)) [0..<length ?ks])"
        using l' by simp
      then show "str_ids X ! i \<in> set ?ms"
        unfolding id matching_ids_def by (simp add: image_iff) blast
    qed
  qed
  have "map (\<lambda>i. make_bitmap (length (str_ids X)) ! i \<or> str_ids X ! i \<in> set ?ms)
        [0..<length (str_ids X)]
      = map (\<lambda>i. prefix (c_str pre) (c_str (rows ! i))) [0..<length rows]"
    unfolding n by (rule map_cong) (auto simp: make_bitmap_def bit)
  then show ?thesis
    using loop by (simp add: PrefixMatch_def pm)
qed

section \<open>Running the operations on concrete inputs\<close>

lemmas run_defs =
  Build_def Load_def Serialize_def In_def NotIn_def PrefixMatch_def prefix_match_def
  prefix_match_loop.simps
  empty_index_def trie_build_def trie_write_def trie_read_def fill_str_ids_def resize_def
  lookup_def trie_lookup_def trie_predictive_search_def matching_ids_def set_query_def Agent_def
  c_str_def fill_offsets_def fill_offsets_step_def map_subscript_def make_bitmap_def
  bitset_set_all_def bitset_set_def bitset_reset_def GetByName_def Append_def Assemble_def
  Disassemble_def BinarySet_empty_def MARISA_TRIE_INDEX_def MARISA_STR_IDS_def
  example_write_def example_read_def char_of_def bit_Suc_0_iff memcpy_size_t_def bytes_of_size_t_array_def
  size_t_bytes_def size_t_of_bytes_def Load_Serialize_def

lemma example_read_a: "example_read [97, 0] = Some (Trie [''a''])"
  by (simp add: example_read_def char_of_def bit_Suc_0_iff)

lemma example_read_truncated: "example_read [97] = None"
  by (simp add: example_read_def)

lemma example_Build:
  "Build remdups empty_index [''a'', ''b'', ''a''] =
     (Inr (), \<lparr>trie = Some (Trie [''b'', ''a'']), str_ids = [1, 0, 1],
               str_ids_to_offsets = [0 \<mapsto> [1], 1 \<mapsto> [0, 2]], built = True\<rparr>)"
  by (simp add: run_defs numeral_2_eq_2)

lemma example_index_eq:
  "example_index = \<lparr>trie = Some (Trie [''b'', ''a'']), str_ids = [1, 0, 1],
               str_ids_to_offsets = [0 \<mapsto> [1], 1 \<mapsto> [0, 2]], built = True\<rparr>"
  by (simp add: example_index_def example_Build)

lemma example_index_built: "built_instance example_index"
  by (rule by_Build [of remdups "[''a'', ''b'', ''a'']"])
     (simp add: example_index_def example_Build)

text \<open>
  The round trip at a concrete instance: the index built from the rows \<open>a, b, a\<close>, written
  and read back by the example engine.
\<close>

theorem Load_Serialize_roundtrip_witness:
  "built_instance example_index \<and>
   trie example_index = Some (Trie [''b'', ''a'']) \<and>
   example_read (example_write (Trie [''b'', ''a''])) = Some (Trie [''b'', ''a'']) \<and>
   fst (Load_Serialize example_write example_read example_index) = Inr () \<and>
   fst (In example_reloaded [''a'']) = Inr [True, False, True] \<and>
   fst (NotIn example_reloaded [''a'']) = Inr [False, True, False] \<and>
   fst (PrefixMatch example_reloaded ''b'') = Inr [False, True, False]"
proof -
  have b: "built_instance example_index"
    by (rule example_index_built)
  have t: "trie example_index = Some (Trie [''b'', ''a''])"
    by (simp add: example_index_eq)
  have c: "example_read (example_write (Trie [''b'', ''a''])) = Some (Trie [''b'', ''a''])"
    by (simp add: example_write_def example_read_def char_of_def bit_Suc_0_iff)
  have q1: "fst (In example_index [''a'']) = Inr [True, False, True]"
    unfolding example_index_eq by (simp add: run_defs)
  have q2: "fst (NotIn example_index [''a'']) = Inr [False, True, False]"
    unfolding example_index_eq by (simp add: run_defs)
  have q3: "fst (PrefixMatch example_index ''b'') = Inr [False, True, False]"
    unfolding example_index_eq by (simp add: run_defs)
  show ?thesis
    using b t c q1 q2 q3
      Load_Serialize_roundtrip [of example_index "Trie [''b'', ''a'']" example_read example_write
        "[''a'']" "''b''"]
    by (simp add: example_reloaded_def)
qed

text \<open>
  The offset partition at a concrete instance: the index built from the rows \<open>a, b, a\<close>,
  where \<open>a\<close> has ID 1 and the offsets \<open>[0, 2]\<close>.
\<close>

theorem offset_partition_witness:
  "str_ids_to_offsets empty_index = Map.empty \<and>
   Build remdups empty_index [''a'', ''b'', ''a''] = (Inr (), example_index) \<and>
   length (str_ids example_index) = 3 \<and>
   (\<exists>xs. str_ids_to_offsets example_index (str_ids example_index ! 2) = Some xs \<and>
         count_list xs 2 = 1) \<and>
   (\<Union>xs \<in> ran (str_ids_to_offsets example_index). set xs) = {0..<3} \<and>
   str_ids_to_offsets example_index 1 = Some [0, 2] \<and>
   str_ids example_index ! 2 = 1 \<and>
   distinct [0, 2 :: nat] \<and> sorted_wrt (<) [0, 2 :: nat]"
proof -
  have e: "str_ids_to_offsets empty_index = Map.empty"
    by (simp add: empty_index_def)
  have b: "Build remdups empty_index [''a'', ''b'', ''a''] = (Inr (), example_index)"
    by (simp add: example_index_eq example_Build)
  have m: "str_ids_to_offsets example_index 1 = Some [0, 2]"
    by (simp add: example_index_eq)
  have r: "Build remdups empty_index [''a'', ''b'', ''a''] = (Inr (), example_index) \<and>
        3 = length [''a'', ''b'', ''a''] \<or>
      Load example_read empty_index BinarySet_empty = (Inr (), example_index) \<and>
        GetByName BinarySet_empty MARISA_STR_IDS = Inr [] \<and> 3 = length ([] :: byte list) div 8"
    using b by simp
  show ?thesis
    using e b m offset_partition [OF e r, of 2 1 "[0, 2]"]
    by simp
qed

lemma example_write_a: "example_write (Trie [''a'']) = [97, 0]"
  by (simp add: example_write_def)

lemma example_write_ab: "example_write (Trie [''a'', ''b'']) = [97, 0, 98, 0]"
  by (simp add: example_write_def)

lemma example_read_ab: "example_read [97, 0, 98, 0] = Some (Trie [''a'', ''b''])"
  by (simp add: example_read_def char_of_def bit_Suc_0_iff)

lemma example_blobs_aa:
  "example_blobs [''a'', ''a''] =
     Append (Append BinarySet_empty MARISA_TRIE_INDEX [97, 0]) MARISA_STR_IDS
       (bytes_of_size_t_array [0, 0])"
proof -
  have "Build remdups empty_index [''a'', ''a''] =
     (Inr (), \<lparr>trie = Some (Trie [''a'']), str_ids = [0, 0],
               str_ids_to_offsets = [0 \<mapsto> [0, 1]], built = True\<rparr>)"
    by (simp add: run_defs)
  then show ?thesis
    by (simp add: example_blobs_def Serialize_built_trie example_write_a)
qed

lemma example_blobs_ab:
  "example_blobs [''a'', ''b''] =
     Append (Append BinarySet_empty MARISA_TRIE_INDEX [97, 0, 98, 0]) MARISA_STR_IDS
       (bytes_of_size_t_array [0, 1])"
proof -
  have "Build remdups empty_index [''a'', ''b''] =
     (Inr (), \<lparr>trie = Some (Trie [''a'', ''b'']), str_ids = [0, 1],
               str_ids_to_offsets = [0 \<mapsto> [0], 1 \<mapsto> [1]], built = True\<rparr>)"
    by (simp add: run_defs)
  then show ?thesis
    by (simp add: example_blobs_def Serialize_built_trie example_write_ab)
qed

lemma example_Load_aa:
  "Load example_read empty_index (example_blobs [''a'', ''a'']) = (Inr (), example_state_aa)"
proof -
  have "fill_offsets (empty_index\<lparr>trie := Some (Trie [''a'']), str_ids := [0, 0]\<rparr>) = example_state_aa"
    by (simp add: example_state_aa_def fill_offsets_def fill_offsets_step_def empty_index_def)
  then show ?thesis
    unfolding example_blobs_aa
    using Load_of_segments [of example_read "[97, 0]" "Trie [''a'']" empty_index "[0, 0]"]
      example_read_a
    by simp
qed

lemma example_Load_aa_aa:
  "Load example_read example_state_aa (example_blobs [''a'', ''a'']) =
     (Inr (), \<lparr>trie = Some (Trie [''a'']), str_ids = [0, 0],
               str_ids_to_offsets = [0 \<mapsto> [0, 1, 0, 1]], built = False\<rparr>)"
proof -
  have "fill_offsets (example_state_aa\<lparr>trie := Some (Trie [''a'']), str_ids := [0, 0]\<rparr>) =
      \<lparr>trie = Some (Trie [''a'']), str_ids = [0, 0],
               str_ids_to_offsets = [0 \<mapsto> [0, 1, 0, 1]], built = False\<rparr>"
    by (simp add: example_state_aa_def fill_offsets_def fill_offsets_step_def)
  then show ?thesis
    unfolding example_blobs_aa
    using Load_of_segments [of example_read "[97, 0]" "Trie [''a'']" example_state_aa "[0, 0]"]
      example_read_a
    by simp
qed

lemma example_Load_aa_ab:
  "Load example_read example_state_aa (example_blobs [''a'', ''b'']) =
     (Inr (), \<lparr>trie = Some (Trie [''a'', ''b'']), str_ids = [0, 1],
               str_ids_to_offsets = [0 \<mapsto> [0, 1, 0], 1 \<mapsto> [1]], built = False\<rparr>)"
proof -
  have "fill_offsets (example_state_aa\<lparr>trie := Some (Trie [''a'', ''b'']), str_ids := [0, 1]\<rparr>) =
      \<lparr>trie = Some (Trie [''a'', ''b'']), str_ids = [0, 1],
               str_ids_to_offsets = [0 \<mapsto> [0, 1, 0], 1 \<mapsto> [1]], built = False\<rparr>"
    by (simp add: example_state_aa_def fill_offsets_def fill_offsets_step_def)
  then show ?thesis
    unfolding example_blobs_ab
    using Load_of_segments [of example_read "[97, 0, 98, 0]" "Trie [''a'', ''b'']"
        example_state_aa "[0, 1]"] example_read_ab
    by simp
qed

lemma example_loaded_over_eq:
  "example_loaded_over = \<lparr>trie = Some (Trie [''a'', ''b'']), str_ids = [0, 1],
               str_ids_to_offsets = [0 \<mapsto> [0, 1, 0], 1 \<mapsto> [1]], built = False\<rparr>"
  by (simp add: example_loaded_over_def example_Load_aa example_Load_aa_ab)

text \<open>
  The partition fails when \<open>Load\<close> completes on an instance that already holds offsets:
  loading the blob set of the rows \<open>a, a\<close> twice into one instance succeeds both times and
  leaves under ID 0, the ID of row 0, the list \<open>[0, 1, 0, 1]\<close>, which holds offset 0 twice
  and is neither free of duplicates nor ascending.
\<close>

theorem Load_twice_breaks_partition:
  "fst (Load example_read empty_index (example_blobs [''a'', ''a''])) = Inr () \<and>
   fst (Load example_read (snd (Load example_read empty_index (example_blobs [''a'', ''a''])))
          (example_blobs [''a'', ''a''])) = Inr () \<and>
   str_ids example_loaded_twice = [0, 0] \<and>
   str_ids_to_offsets example_loaded_twice (str_ids example_loaded_twice ! 0) = Some [0, 1, 0, 1] \<and>
   count_list [0, 1, 0, 1] (0 :: nat) = 2 \<and>
   \<not> distinct [0, 1, 0, 1 :: nat] \<and>
   \<not> sorted_wrt (<) [0, 1, 0, 1 :: nat]"
  by (simp add: example_loaded_twice_def example_Load_aa example_Load_aa_aa)

text \<open>
  The round trip changes the results of queries in two cases. First, on an instance loaded
  over: after loading the blob set of the rows \<open>a, a\<close> and then that of the rows \<open>a, b\<close>,
  \<open>In\<close> of \<open>a\<close> reports both rows, and reports row 0 only once the instance is serialized and
  loaded into a new one. Second, with a decoder that gives the keys other IDs: \<open>Load\<close> takes
  \<open>row_to_id\<close> as it was stored, so on the index of the rows \<open>a, b, a\<close> read back with the
  reversing decoder \<open>In\<close> of \<open>a\<close> reports row 1 instead of rows 0 and 2.
\<close>

theorem roundtrip_changes_results:
  "fst (Load example_read empty_index (example_blobs [''a'', ''a''])) = Inr () \<and>
   fst (Load example_read (snd (Load example_read empty_index (example_blobs [''a'', ''a''])))
          (example_blobs [''a'', ''b''])) = Inr () \<and>
   fst (Load_Serialize example_write example_read example_loaded_over) = Inr () \<and>
   fst (In example_loaded_over [''a'']) = Inr [True, True] \<and>
   fst (In (snd (Load_Serialize example_write example_read example_loaded_over)) [''a''])
     = Inr [True, False] \<and>
   built_instance example_index \<and>
   fst (Load_Serialize example_write example_read_reversed example_index) = Inr () \<and>
   fst (In example_index [''a'']) = Inr [True, False, True] \<and>
   fst (In (snd (Load_Serialize example_write example_read_reversed example_index)) [''a''])
     = Inr [False, True, False]"
proof -
  have l1: "fst (Load example_read empty_index (example_blobs [''a'', ''a''])) = Inr ()"
    by (simp add: example_Load_aa)
  have l2: "fst (Load example_read (snd (Load example_read empty_index (example_blobs [''a'', ''a''])))
          (example_blobs [''a'', ''b''])) = Inr ()"
    by (simp add: example_Load_aa example_Load_aa_ab)
  have t: "trie example_loaded_over = Some (Trie [''a'', ''b''])"
    by (simp add: example_loaded_over_eq)
  have ids: "str_ids example_loaded_over = [0, 1]"
    by (simp add: example_loaded_over_eq)
  have c: "example_read (example_write (Trie [''a'', ''b''])) = Some (Trie [''a'', ''b''])"
    by (simp add: example_write_ab example_read_ab)
  have f: "fill_offsets (empty_index\<lparr>trie := Some (Trie [''a'', ''b'']), str_ids := [0, 1]\<rparr>) =
      \<lparr>trie = Some (Trie [''a'', ''b'']), str_ids = [0, 1],
               str_ids_to_offsets = [0 \<mapsto> [0], 1 \<mapsto> [1]], built = False\<rparr>"
    by (simp add: fill_offsets_def fill_offsets_step_def empty_index_def)
  have rt: "Load_Serialize example_write example_read example_loaded_over =
     (Inr (), \<lparr>trie = Some (Trie [''a'', ''b'']), str_ids = [0, 1],
               str_ids_to_offsets = [0 \<mapsto> [0], 1 \<mapsto> [1]], built = False\<rparr>)"
    using Load_of_segments [of example_read "example_write (Trie [''a'', ''b''])"
        "Trie [''a'', ''b'']" empty_index "[0, 1]"] c f
    by (simp add: Load_Serialize_def Serialize_built_trie [OF t] ids)
  have q1: "fst (In example_loaded_over [''a'']) = Inr [True, True]"
    unfolding example_loaded_over_eq by (simp add: run_defs)
  have q2: "fst (In (snd (Load_Serialize example_write example_read example_loaded_over)) [''a''])
     = Inr [True, False]"
    unfolding rt by (simp add: run_defs)
  have t': "trie example_index = Some (Trie [''b'', ''a''])"
    by (simp add: example_index_eq)
  have ids': "str_ids example_index = [1, 0, 1]"
    by (simp add: example_index_eq)
  have c': "example_read_reversed (example_write (Trie [''b'', ''a''])) = Some (Trie [''a'', ''b''])"
    by (simp add: example_read_reversed_def example_write_def example_read_def char_of_def
        bit_Suc_0_iff)
  have f': "fill_offsets (empty_index\<lparr>trie := Some (Trie [''a'', ''b'']), str_ids := [1, 0, 1]\<rparr>) =
      \<lparr>trie = Some (Trie [''a'', ''b'']), str_ids = [1, 0, 1],
               str_ids_to_offsets = [0 \<mapsto> [1], 1 \<mapsto> [0, 2]], built = False\<rparr>"
    by (simp add: fill_offsets_def fill_offsets_step_def empty_index_def numeral_2_eq_2)
  have rt': "Load_Serialize example_write example_read_reversed example_index =
     (Inr (), \<lparr>trie = Some (Trie [''a'', ''b'']), str_ids = [1, 0, 1],
               str_ids_to_offsets = [0 \<mapsto> [1], 1 \<mapsto> [0, 2]], built = False\<rparr>)"
    using Load_of_segments [of example_read_reversed "example_write (Trie [''b'', ''a''])"
        "Trie [''a'', ''b'']" empty_index "[1, 0, 1]"] c' f'
    by (simp add: Load_Serialize_def Serialize_built_trie [OF t'] ids')
  have q3: "fst (In example_index [''a'']) = Inr [True, False, True]"
    unfolding example_index_eq by (simp add: run_defs)
  have q4: "fst (In (snd (Load_Serialize example_write example_read_reversed example_index)) [''a''])
     = Inr [False, True, False]"
    unfolding rt' by (simp add: run_defs)
  show ?thesis
    using l1 l2 q1 q2 q3 q4 example_index_built by (simp add: rt rt')
qed

section \<open>Running \<open>fill_offsets\<close> twice\<close>

text \<open>
  C9, as amended. \<open>fill_offsets\<close> does not clear \<open>id_to_offsets\<close>: it appends. A second run
  over the same \<open>row_to_id\<close> appends to the list of every ID, once more, the ascending offsets
  of the rows that hold this ID. It creates no key, and the set of offsets under each ID is
  that of the first run. The list of an ID is the one of the first run exactly when no row
  holds the ID, so the instance after the second run equals the instance after the first
  exactly when \<open>row_to_id\<close> is empty. The trie, \<open>row_to_id\<close> and the built flag are not
  touched.
\<close>

theorem fill_offsets_appends_again:
  "str_ids_to_offsets (fill_offsets (fill_offsets st)) k =
     map_option (\<lambda>offsets. offsets @ rows_of (str_ids st) k) (str_ids_to_offsets (fill_offsets st) k) \<and>
   dom (str_ids_to_offsets (fill_offsets (fill_offsets st))) = dom (str_ids_to_offsets (fill_offsets st)) \<and>
   set (offsets_at (str_ids_to_offsets (fill_offsets (fill_offsets st))) k) =
     set (offsets_at (str_ids_to_offsets (fill_offsets st)) k) \<and>
   (str_ids_to_offsets (fill_offsets (fill_offsets st)) k = str_ids_to_offsets (fill_offsets st) k
      \<longleftrightarrow> rows_of (str_ids st) k = []) \<and>
   (fill_offsets (fill_offsets st) = fill_offsets st \<longleftrightarrow> str_ids st = []) \<and>
   trie (fill_offsets (fill_offsets st)) = trie (fill_offsets st) \<and>
   str_ids (fill_offsets (fill_offsets st)) = str_ids (fill_offsets st) \<and>
   built (fill_offsets (fill_offsets st)) = built (fill_offsets st)"
proof -
  let ?m1 = "str_ids_to_offsets (fill_offsets st)"
  let ?m2 = "str_ids_to_offsets (fill_offsets (fill_offsets st))"
  have step: "?m2 j = map_option (\<lambda>offsets. offsets @ rows_of (str_ids st) j) (?m1 j)" for j
    by (simp add: fill_offsets_apply fill_offsets_frame offsets_at_def option.map_ident)
  have keys: "dom ?m2 = dom ?m1"
    by (auto simp: dom_def step)
  have sets: "set (offsets_at ?m2 k) = set (offsets_at ?m1 k)"
    by (auto simp: offsets_at_def fill_offsets_apply fill_offsets_frame)
  have one: "?m2 j = ?m1 j \<longleftrightarrow> rows_of (str_ids st) j = []" for j
    by (simp add: fill_offsets_apply fill_offsets_frame offsets_at_def)
  have idem: "fill_offsets (fill_offsets st) = fill_offsets st \<longleftrightarrow> str_ids st = []"
  proof
    assume "fill_offsets (fill_offsets st) = fill_offsets st"
    then have "?m2 j = ?m1 j" for j by simp
    then have none: "rows_of (str_ids st) j = []" for j using one by simp
    show "str_ids st = []"
    proof (rule ccontr)
      assume "str_ids st \<noteq> []"
      then have "0 \<in> set (rows_of (str_ids st) (str_ids st ! 0))"
        by (simp add: set_rows_of)
      then show False using none [of "str_ids st ! 0"] by simp
    qed
  next
    assume "str_ids st = []"
    then show "fill_offsets (fill_offsets st) = fill_offsets st"
      by (simp add: fill_offsets_def)
  qed
  show ?thesis
    by (intro conjI) (fact step keys sets one idem | simp add: fill_offsets_frame)+
qed

text \<open>
  Idempotence fails: on an index built from the one value \<open>a\<close>, where \<open>fill_offsets\<close> has run
  once, a second run turns the list \<open>[0]\<close> of ID 0 into \<open>[0, 0]\<close>.
\<close>

theorem fill_offsets_not_idempotent:
  "str_ids_to_offsets (snd (Build remdups empty_index [''a''])) 0 = Some [0] \<and>
   str_ids_to_offsets (fill_offsets (snd (Build remdups empty_index [''a'']))) 0 = Some [0, 0] \<and>
   fill_offsets (snd (Build remdups empty_index [''a''])) \<noteq> snd (Build remdups empty_index [''a''])"
proof -
  have a: "str_ids_to_offsets (snd (Build remdups empty_index [''a''])) 0 = Some [0]"
    by (simp add: run_defs)
  have b: "str_ids_to_offsets (fill_offsets (snd (Build remdups empty_index [''a'']))) 0 = Some [0, 0]"
    by (simp add: run_defs)
  have "fill_offsets (snd (Build remdups empty_index [''a''])) \<noteq> snd (Build remdups empty_index [''a''])"
  proof
    assume "fill_offsets (snd (Build remdups empty_index [''a''])) = snd (Build remdups empty_index [''a''])"
    then have "str_ids_to_offsets (fill_offsets (snd (Build remdups empty_index [''a'']))) 0
             = str_ids_to_offsets (snd (Build remdups empty_index [''a''])) 0"
      by simp
    then show False by (simp only: a b) simp
  qed
  then show ?thesis using a b by simp
qed

section \<open>\<open>Serialize\<close> is read-only\<close>

text \<open>
  C10. \<open>Serialize\<close> leaves the instance as it was, whether it succeeds or fails, so every query
  returns after the call what it returned before.
\<close>

theorem Serialize_frame:
  "snd (Serialize tw st) = st \<and>
   In (snd (Serialize tw st)) values = In st values \<and>
   NotIn (snd (Serialize tw st)) values = NotIn st values \<and>
   PrefixMatch (snd (Serialize tw st)) pre = PrefixMatch st pre"
proof -
  have "snd (Serialize tw st) = st"
    by (simp add: Serialize_def Let_def split: sum.splits)
  then show ?thesis by simp
qed

section \<open>Queries on an instance that was never built\<close>





section \<open>Failures of \<open>Load\<close>\<close>

text \<open>
  C5, as amended. \<open>Load\<close> has no rollback. When the trie segment is missing, or the engine
  cannot decode it, \<open>Load\<close> fails and leaves the instance exactly as it was. When the trie
  segment decodes and the offsets segment is missing, \<open>Load\<close> fails after the trie has been
  replaced: the instance holds the decoded trie, and \<open>row_to_id\<close>, \<open>id_to_offsets\<close> and the
  built flag as before the call. When both segments are present, the trie decodes and the byte
  length of the offsets segment is a multiple of 8, \<open>Load\<close> succeeds.
\<close>

theorem Load_failure_modes:
  "(GetByName blobs MARISA_TRIE_INDEX = Inl e \<longrightarrow> Load tr st blobs = (Inl e, st)) \<and>
   (GetByName blobs MARISA_TRIE_INDEX = Inr index \<and> tr index = None \<longrightarrow>
      Load tr st blobs = (Inl MARISA_FORMAT_ERROR, st)) \<and>
   (GetByName blobs MARISA_TRIE_INDEX = Inr index \<and> tr index = Some t \<and>
    GetByName blobs MARISA_STR_IDS = Inl e \<longrightarrow>
      Load tr st blobs = (Inl e, st\<lparr>trie := Some t\<rparr>)) \<and>
   (GetByName blobs MARISA_TRIE_INDEX = Inr index \<and> tr index = Some t \<and>
    GetByName blobs MARISA_STR_IDS = Inr ids_data \<and> length ids_data mod 8 = 0 \<longrightarrow>
      Load tr st blobs =
        (Inr (), fill_offsets (st\<lparr>trie := Some t,
                   str_ids := size_t_array_of_bytes (length ids_data div 8) ids_data\<rparr>)))"
proof (intro conjI impI)
  assume "GetByName blobs MARISA_TRIE_INDEX = Inl e"
  then show "Load tr st blobs = (Inl e, st)"
    by (simp add: Load_def Assemble_def)
next
  assume "GetByName blobs MARISA_TRIE_INDEX = Inr index \<and> tr index = None"
  then show "Load tr st blobs = (Inl MARISA_FORMAT_ERROR, st)"
    by (simp add: Load_def Assemble_def trie_read_def)
next
  assume "GetByName blobs MARISA_TRIE_INDEX = Inr index \<and> tr index = Some t \<and>
    GetByName blobs MARISA_STR_IDS = Inl e"
  then show "Load tr st blobs = (Inl e, st\<lparr>trie := Some t\<rparr>)"
    by (simp add: Load_def Assemble_def trie_read_def)
next
  assume a: "GetByName blobs MARISA_TRIE_INDEX = Inr index \<and> tr index = Some t \<and>
    GetByName blobs MARISA_STR_IDS = Inr ids_data \<and> length ids_data mod 8 = 0"
  let ?n = "length ids_data div 8"
  have "length ids_data mod 8 = 0" using a by simp
  then have "length ids_data = 8 * ?n" by presburger
  then have "memcpy_size_t (resize ?n (str_ids st)) ids_data = Inr (size_t_array_of_bytes ?n ids_data)"
    using memcpy_size_t_whole [of ids_data "resize ?n (str_ids st)"]
    by (simp add: length_resize)
  then show "Load tr st blobs =
        (Inr (), fill_offsets (st\<lparr>trie := Some t,
                   str_ids := size_t_array_of_bytes (length ids_data div 8) ids_data\<rparr>))"
    using a by (simp add: Load_def Assemble_def trie_read_def)
qed

theorem Load_failure_modes_witness:
  "Load example_read empty_index BinarySet_empty = (Inl OutOfRange, empty_index) \<and>
   Load example_read empty_index (Append BinarySet_empty MARISA_TRIE_INDEX [97])
     = (Inl MARISA_FORMAT_ERROR, empty_index) \<and>
   Load example_read empty_index (Append BinarySet_empty MARISA_TRIE_INDEX [97, 0])
     = (Inl OutOfRange, empty_index\<lparr>trie := Some (Trie [''a''])\<rparr>) \<and>
   fst (Load example_read empty_index
     (Append (Append BinarySet_empty MARISA_TRIE_INDEX [97, 0]) MARISA_STR_IDS
        [0, 0, 0, 0, 0, 0, 0, 0])) = Inr ()"
proof -
  let ?b1 = "Append BinarySet_empty MARISA_TRIE_INDEX [97]"
  let ?b2 = "Append BinarySet_empty MARISA_TRIE_INDEX [97, 0]"
  let ?b3 = "Append (Append BinarySet_empty MARISA_TRIE_INDEX [97, 0]) MARISA_STR_IDS
        [0, 0, 0, 0, 0, 0, 0, 0]"
  have g0: "GetByName BinarySet_empty MARISA_TRIE_INDEX = Inl OutOfRange"
    by (simp add: GetByName_def BinarySet_empty_def)
  have g1: "GetByName ?b1 MARISA_TRIE_INDEX = Inr [97]"
    by (simp add: GetByName_def Append_def)
  have g2: "GetByName ?b2 MARISA_TRIE_INDEX = Inr [97, 0]"
    "GetByName ?b2 MARISA_STR_IDS = Inl OutOfRange"
    using segment_names_differ by (simp_all add: GetByName_def Append_def BinarySet_empty_def)
  have g3: "GetByName ?b3 MARISA_TRIE_INDEX = Inr [97, 0]"
    "GetByName ?b3 MARISA_STR_IDS = Inr [0, 0, 0, 0, 0, 0, 0, 0]"
    using segment_names_differ by (simp_all add: GetByName_def Append_def BinarySet_empty_def)
  have "Load example_read empty_index BinarySet_empty = (Inl OutOfRange, empty_index)"
    using Load_failure_modes [of BinarySet_empty OutOfRange example_read empty_index] g0
    by simp
  moreover have "Load example_read empty_index ?b1 = (Inl MARISA_FORMAT_ERROR, empty_index)"
    using Load_failure_modes [of ?b1 _ example_read empty_index "[97]"] g1 example_read_truncated
    by simp
  moreover have "Load example_read empty_index ?b2
      = (Inl OutOfRange, empty_index\<lparr>trie := Some (Trie [''a''])\<rparr>)"
    using Load_failure_modes [of ?b2 OutOfRange example_read empty_index "[97, 0]" "Trie [''a'']"]
      g2 example_read_a
    by simp
  moreover have "fst (Load example_read empty_index ?b3) = Inr ()"
    using Load_failure_modes [of ?b3 _ example_read empty_index "[97, 0]" "Trie [''a'']"
        "[0, 0, 0, 0, 0, 0, 0, 0]"] g3 example_read_a
    by simp
  ultimately show ?thesis by simp
qed

text \<open>
  A failed \<open>Load\<close> can leave a partial state: loading, into a newly constructed instance, a blob set with a trie segment
  and no offsets segment fails and leaves the decoded trie in the instance, where \<open>Size\<close> then
  returns 1 instead of failing.
\<close>

theorem Load_fails_with_trie_replaced:
  "fst (Load example_read empty_index (Append BinarySet_empty MARISA_TRIE_INDEX [97, 0]))
     = Inl OutOfRange \<and>
   trie (snd (Load example_read empty_index (Append BinarySet_empty MARISA_TRIE_INDEX [97, 0])))
     = Some (Trie [''a'']) \<and>
   snd (Load example_read empty_index (Append BinarySet_empty MARISA_TRIE_INDEX [97, 0]))
     \<noteq> empty_index \<and>
   fst (Size (snd (Load example_read empty_index (Append BinarySet_empty MARISA_TRIE_INDEX [97, 0]))))
     = Inr 1 \<and>
   fst (Size empty_index) = Inl MARISA_STATE_ERROR"
proof -
  let ?b = "Append BinarySet_empty MARISA_TRIE_INDEX [97, 0]"
  have g: "GetByName ?b MARISA_TRIE_INDEX = Inr [97, 0]"
    "GetByName ?b MARISA_STR_IDS = Inl OutOfRange"
    using segment_names_differ by (simp_all add: GetByName_def Append_def BinarySet_empty_def)
  have L: "Load example_read empty_index ?b = (Inl OutOfRange, empty_index\<lparr>trie := Some (Trie [''a''])\<rparr>)"
    by (simp add: Load_def Assemble_def g trie_read_def example_read_a)
  have ne: "empty_index\<lparr>trie := Some (Trie [''a''])\<rparr> \<noteq> empty_index"
    by (simp add: empty_index_def)
  show ?thesis
    by (simp add: L ne Size_def trie_size_def) (simp add: empty_index_def)
qed

section \<open>Defects\<close>

text \<open>
  C6. \<open>lookup\<close> returns the key ID of the agent whether or not the engine found the value, and
  the test \<open>str_id >= 0\<close> on an unsigned integer is always true: a value that is absent from the
  trie is taken for the value with ID 0. On an index built from the one value \<open>a\<close>,
  \<open>In\<close> of the absent value \<open>b\<close> sets bit 0.
\<close>

theorem In_absent_value_sets_rows_of_ID_0:
  "fst (Build remdups empty_index [''a'']) = Inr () \<and>
   fst (In (snd (Build remdups empty_index [''a''])) [''b'']) = Inr [True]"
  by (simp add: run_defs)

text \<open>
  Values are compared as C strings: a row whose value has an embedded NUL character matches
  the input value that equals its part before the NUL.
\<close>

lemma In_truncates_at_NUL:
  "fst (In (snd (Build remdups empty_index [[CHR ''a'', CHR 0x00, CHR ''b'']])) [''a'']) = Inr [True]"
  by (simp add: run_defs)

text \<open>
  C7. \<open>std::map::operator[]\<close> inserts an empty list under an ID that has none. On an index
  built from no value at all, \<open>In\<close> of any value looks up ID 0 (an absent value is taken
  for the value with ID 0, as above) and leaves \<open>id_to_offsets\<close> with an entry it did not
  have.
\<close>

theorem In_inserts_entry:
  "fst (Build remdups empty_index []) = Inr () \<and>
   str_ids_to_offsets (snd (Build remdups empty_index [])) 0 = None \<and>
   fst (In (snd (Build remdups empty_index [])) [''x'']) = Inr [] \<and>
   str_ids_to_offsets (snd (In (snd (Build remdups empty_index [])) [''x''])) 0 = Some [] \<and>
   snd (In (snd (Build remdups empty_index [])) [''x'']) \<noteq> snd (Build remdups empty_index [])"
proof -
  have a: "str_ids_to_offsets (snd (Build remdups empty_index [])) 0 = None"
    by (simp add: run_defs)
  have b: "str_ids_to_offsets (snd (In (snd (Build remdups empty_index [])) [''x''])) 0 = Some []"
    by (simp add: run_defs)
  have c: "snd (In (snd (Build remdups empty_index [])) [''x'']) \<noteq> snd (Build remdups empty_index [])"
  proof
    assume "snd (In (snd (Build remdups empty_index [])) [''x'']) = snd (Build remdups empty_index [])"
    then have "str_ids_to_offsets (snd (In (snd (Build remdups empty_index [])) [''x''])) 0
        = str_ids_to_offsets (snd (Build remdups empty_index [])) 0"
      by simp
    then show False by (simp only: a b) simp
  qed
  have d: "fst (Build remdups empty_index []) = Inr ()"
    by (simp add: run_defs)
  have e: "fst (In (snd (Build remdups empty_index [])) [''x'']) = Inr []"
    by (simp add: run_defs)
  show ?thesis using a b c d e by simp
qed

lemma Load_keeps_built: "built (snd (Load tr st blobs)) = built st"
  by (simp add: Load_def Assemble_def Let_def fill_offsets_frame split: sum.splits)

lemma Build_after_Load_never_fails:
  "fst (Build ord (snd (Load tr empty_index blobs)) values) = Inr ()"
proof -
  have "\<not> built (snd (Load tr empty_index blobs))"
    by (simp add: Load_keeps_built empty_index_def)
  then show ?thesis by (simp add: Build_unbuilt)
qed

lemma example_loaded_eq:
  "example_loaded = \<lparr>trie = Some (Trie [''a'']), str_ids = [0, 0],
     str_ids_to_offsets = [0 \<mapsto> [0, 1]], built = False\<rparr>"
proof -
  have b: "Build remdups empty_index [''a'', ''a''] =
     (Inr (), \<lparr>trie = Some (Trie [''a'']), str_ids = [0, 0],
               str_ids_to_offsets = [0 \<mapsto> [0, 1]], built = True\<rparr>)"
    by (simp add: run_defs)
  have c: "example_read (example_write (Trie [''a''])) = Some (Trie [''a''])"
    by (simp add: example_write_def example_read_def char_of_def bit_Suc_0_iff)
  have "Load_Serialize example_write example_read (snd (Build remdups empty_index [''a'', ''a'']))
    = (Inr (), fill_offsets (empty_index\<lparr>trie := Some (Trie [''a'']), str_ids := [0, 0]\<rparr>))"
    using Load_of_segments [of example_read "example_write (Trie [''a''])" "Trie [''a'']"
        empty_index "[0, 0]"] c
    by (simp add: b Load_Serialize_def Serialize_built_trie)
  then show ?thesis
    by (simp add: example_loaded_def) (simp add: run_defs)
qed

text \<open>
  C4. \<open>Load\<close> never sets the built flag, so \<open>Build\<close> on a loaded instance does not fail. It
  replaces the trie and \<open>row_to_id\<close> and appends to the \<open>id_to_offsets\<close> of the loaded data:
  after loading an index of the rows \<open>a, a\<close> and building from \<open>a, b\<close>, ID 0 has the offsets
  \<open>[0, 1, 0]\<close> and \<open>In\<close> of \<open>a\<close> reports both rows, where an index built from \<open>a, b\<close> alone
  reports row 0 only.
\<close>

theorem Build_after_Load_succeeds:
  "fst (Load_Serialize example_write example_read (snd (Build remdups empty_index [''a'', ''a''])))
     = Inr () \<and>
   fst (In example_loaded [''a'']) = Inr [True, True] \<and>
   built example_loaded = False \<and>
   fst (Build remdups example_loaded [''a'', ''b'']) = Inr () \<and>
   str_ids_to_offsets example_rebuilt 0 = Some [0, 1, 0] \<and>
   fst (In example_rebuilt [''a'']) = Inr [True, True] \<and>
   fst (In (snd (Build remdups empty_index [''a'', ''b''])) [''a'']) = Inr [True, False]"
proof -
  have b: "Build remdups empty_index [''a'', ''a''] =
     (Inr (), \<lparr>trie = Some (Trie [''a'']), str_ids = [0, 0],
               str_ids_to_offsets = [0 \<mapsto> [0, 1]], built = True\<rparr>)"
    by (simp add: run_defs)
  have c: "example_read (example_write (Trie [''a''])) = Some (Trie [''a''])"
    by (simp add: example_write_def example_read_def char_of_def bit_Suc_0_iff)
  have l: "fst (Load_Serialize example_write example_read
      (snd (Build remdups empty_index [''a'', ''a'']))) = Inr ()"
    using Load_of_segments [of example_read "example_write (Trie [''a''])" "Trie [''a'']"
        empty_index "[0, 0]"] c
    by (simp add: b Load_Serialize_def Serialize_built_trie)
  have q0: "fst (In example_loaded [''a'']) = Inr [True, True]"
    unfolding example_loaded_eq by (simp add: run_defs)
  have nb: "built example_loaded = False"
    by (simp add: example_loaded_eq)
  have r: "Build remdups example_loaded [''a'', ''b''] =
     (Inr (), \<lparr>trie = Some (Trie [''a'', ''b'']), str_ids = [0, 1],
               str_ids_to_offsets = [0 \<mapsto> [0, 1, 0], 1 \<mapsto> [1]], built = True\<rparr>)"
    unfolding example_loaded_eq by (simp add: run_defs)
  have q1: "fst (In example_rebuilt [''a'']) = Inr [True, True]"
    unfolding example_rebuilt_def r by (simp add: run_defs)
  have q2: "fst (In (snd (Build remdups empty_index [''a'', ''b''])) [''a'']) = Inr [True, False]"
    by (simp add: run_defs)
  show ?thesis
    using l q0 nb q1 q2 by (simp add: r example_rebuilt_def)
qed

end
